theory Spec2Isabelle
  imports Main "HOL-Library.AList"
begin

section \<open>Strings as the script uses them\<close>

text \<open>
  The migrator is the script block of \<^verbatim>\<open>src/routes/+page.svelte\<close>. Strings are
  character lists. The helpers below are the JavaScript string and array methods the
  script calls: \<^verbatim>\<open>split\<close>, \<^verbatim>\<open>join\<close>, \<^verbatim>\<open>toLowerCase\<close>,
  \<^verbatim>\<open>includes\<close> and the conversion of a number inside a template literal.
\<close>

text \<open>\<^verbatim>\<open>s.split(c)\<close> for a one-character separator: never empty, \<^verbatim>\<open>''.split(c)\<close> is \<^verbatim>\<open>['']\<close>.\<close>

fun split :: "char \<Rightarrow> string \<Rightarrow> string list" where
  "split c [] = [[]]"
| "split c (x # xs) =
     (if x = c then [] # split c xs
      else (case split c xs of [] \<Rightarrow> [[x]] | y # ys \<Rightarrow> (x # y) # ys))"

text \<open>\<^verbatim>\<open>xs.join(sep)\<close>.\<close>

fun join :: "string \<Rightarrow> string list \<Rightarrow> string" where
  "join sep [] = []"
| "join sep [x] = x"
| "join sep (x # y # ys) = x @ sep @ join sep (y # ys)"

text \<open>\<^verbatim>\<open>xs.pop()\<close> as a value: the last element, \<^verbatim>\<open>undefined\<close> on an empty array.\<close>

definition pop :: "'a list \<Rightarrow> 'a option" where
  "pop xs = (if xs = [] then None else Some (last xs))"

text \<open>
  \<^verbatim>\<open>toLowerCase\<close> on the letters A to Z. No key of the extension table and no
  character of the identifier pattern is the lower case of a character outside that range,
  so the other characters are left as they are.
\<close>

definition lower_char :: "char \<Rightarrow> char" where
  "lower_char c =
     (case map_of (zip ''ABCDEFGHIJKLMNOPQRSTUVWXYZ'' ''abcdefghijklmnopqrstuvwxyz'') c of
        Some d \<Rightarrow> d
      | None \<Rightarrow> c)"

definition toLowerCase :: "string \<Rightarrow> string" where
  "toLowerCase s = map lower_char s"

text \<open>\<^verbatim>\<open>s.includes(sub)\<close>.\<close>

fun starts_with :: "string \<Rightarrow> string \<Rightarrow> bool" where
  "starts_with s [] = True"
| "starts_with [] (y # ys) = False"
| "starts_with (x # xs) (y # ys) = (x = y \<and> starts_with xs ys)"

fun str_includes :: "string \<Rightarrow> string \<Rightarrow> bool" where
  "str_includes [] sub = (sub = [])"
| "str_includes (x # xs) sub = (starts_with (x # xs) sub \<or> str_includes xs sub)"

text \<open>A non-negative integer inside a template literal: its decimal digits.\<close>

definition index_of_digit :: "char \<Rightarrow> nat" where
  "index_of_digit c = length (takeWhile (\<lambda>d. d \<noteq> c) ''0123456789'')"

definition digit_char :: "nat \<Rightarrow> char" where
  "digit_char d = ''0123456789'' ! d"

fun string_of_nat :: "nat \<Rightarrow> string" where
  "string_of_nat n =
     (if n < 10 then [digit_char n] else string_of_nat (n div 10) @ [digit_char (n mod 10)])"

declare string_of_nat.simps [simp del]

section \<open>Values and property lookup on object literals\<close>

text \<open>
  \<^verbatim>\<open>mimeTypes\<close> and \<^verbatim>\<open>bucketFiles\<close> are object literals, so \<^verbatim>\<open>obj[key]\<close> finds the
  object's own properties first and then the properties every object inherits from
  \<^verbatim>\<open>Object.prototype\<close>. The inherited ones are functions (and, for \<^verbatim>\<open>__proto__\<close>, the
  prototype object itself): all of them truthy, none of them a string or an array.
\<close>

definition object_prototype_properties :: "string list" where
  "object_prototype_properties =
     [''constructor'', ''__defineGetter__'', ''__defineSetter__'', ''hasOwnProperty'',
      ''__lookupGetter__'', ''__lookupSetter__'', ''isPrototypeOf'', ''propertyIsEnumerable'',
      ''toString'', ''valueOf'', ''__proto__'', ''toLocaleString'']"

text \<open>What \<^verbatim>\<open>getMimeType\<close> can hand back: a string, or an inherited property, named by its key.\<close>

datatype js_value = JString string | JInherited string

section \<open>The content-type resolver\<close>

definition mimeTypes :: "(string \<times> string) list" where
  "mimeTypes =
     [(''jpg'', ''image/jpeg''),
      (''jpeg'', ''image/jpeg''),
      (''png'', ''image/png''),
      (''gif'', ''image/gif''),
      (''webp'', ''image/webp''),
      (''svg'', ''image/svg+xml''),
      (''ico'', ''image/x-icon''),
      (''pdf'', ''application/pdf''),
      (''doc'', ''application/msword''),
      (''docx'', ''application/vnd.openxmlformats-officedocument.wordprocessingml.document''),
      (''xls'', ''application/vnd.ms-excel''),
      (''xlsx'', ''application/vnd.openxmlformats-officedocument.spreadsheetml.sheet''),
      (''ppt'', ''application/vnd.ms-powerpoint''),
      (''pptx'', ''application/vnd.openxmlformats-officedocument.presentationml.presentation''),
      (''txt'', ''text/plain''),
      (''csv'', ''text/csv''),
      (''json'', ''application/json''),
      (''xml'', ''application/xml''),
      (''html'', ''text/html''),
      (''css'', ''text/css''),
      (''js'', ''application/javascript''),
      (''zip'', ''application/zip''),
      (''rar'', ''application/x-rar-compressed''),
      (''7z'', ''application/x-7z-compressed''),
      (''tar'', ''application/x-tar''),
      (''gz'', ''application/gzip''),
      (''mp3'', ''audio/mpeg''),
      (''wav'', ''audio/wav''),
      (''mp4'', ''video/mp4''),
      (''avi'', ''video/x-msvideo''),
      (''mov'', ''video/quicktime''),
      (''webm'', ''video/webm''),
      (''bin'', ''application/octet-stream'')]"

text \<open>
  \<^verbatim>\<open>filename.split('.').pop()?.toLowerCase() || ''\<close>: the text after the last dot, and the
  whole name when it has no dot.
\<close>

definition extension :: "string \<Rightarrow> string" where
  "extension filename =
     (case pop (split (CHR ''.'') filename) of None \<Rightarrow> [] | Some e \<Rightarrow> toLowerCase e)"

text \<open>
  \<^verbatim>\<open>mimeTypes[ext] || 'application/octet-stream'\<close>. Every value of the table is a
  non-empty string and every inherited property is truthy, so the default is taken only
  when the lookup finds nothing.
\<close>

definition getMimeType :: "string \<Rightarrow> js_value" where
  "getMimeType filename =
     (let ext = extension filename in
      case map_of mimeTypes ext of
        Some m \<Rightarrow> JString m
      | None \<Rightarrow>
          if ext \<in> set object_prototype_properties then JInherited ext
          else JString ''application/octet-stream'')"

section \<open>The archive layout inferencer\<close>

text \<open>
  An entry of \<^verbatim>\<open>zip.files\<close>: its directory flag and what \<^verbatim>\<open>async('arraybuffer')\<close>
  settles to, the bytes or the message of the rejection.
\<close>

type_synonym blob = string

record JSZipObject =
  dir :: bool
  async :: "string + blob"

record FileInfo =
  path :: string
  file' :: JSZipObject

text \<open>
  \<^verbatim>\<open>BucketFiles\<close>: the own properties of the object, in the order they were added.
\<close>

type_synonym BucketFiles = "(string \<times> FileInfo list) list"

text \<open>\<^verbatim>\<open>path.split('/').filter(p => p.length > 0)\<close>.\<close>

definition parts :: "string \<Rightarrow> string list" where
  "parts p = filter (\<lambda>x. length x > 0) (split (CHR ''/'') p)"

text \<open>\<^verbatim>\<open>/^[a-z0-9]{20,}$/.test(name)\<close>.\<close>

definition looks_like_project_id :: "string \<Rightarrow> bool" where
  "looks_like_project_id name =
     (length name \<ge> 20 \<and> list_all (\<lambda>c. c \<in> set ''abcdefghijklmnopqrstuvwxyz0123456789'') name)"

text \<open>\<^verbatim>\<open>set.add(x)\<close> on a \<^verbatim>\<open>Set\<close>, kept in insertion order.\<close>

definition set_add :: "'a list \<Rightarrow> 'a \<Rightarrow> 'a list" where
  "set_add xs x = (if x \<in> set xs then xs else xs @ [x])"

text \<open>The first pass: the first segment of every entry that is not a directory.\<close>

fun rootCandidates :: "(string \<times> JSZipObject) list \<Rightarrow> string list \<Rightarrow> string list" where
  "rootCandidates [] acc = acc"
| "rootCandidates ((p, f) # es) acc =
     rootCandidates es
       (if \<not> dir f \<and> length (parts p) > 0 then set_add acc (hd (parts p)) else acc)"

definition rootFolder :: "(string \<times> JSZipObject) list \<Rightarrow> string option" where
  "rootFolder entries =
     (case rootCandidates entries [] of
        [candidate] \<Rightarrow> if looks_like_project_id candidate then Some candidate else None
      | _ \<Rightarrow> None)"

text \<open>
  The body of the second \<^verbatim>\<open>forEach\<close> up to the two \<^verbatim>\<open>return\<close>s: where one entry goes,
  \<open>None\<close> when it is skipped. \<^verbatim>\<open>parts[0]\<close> of an empty array is \<^verbatim>\<open>undefined\<close>, which
  is not equal to the root folder.
\<close>

definition place :: "string option \<Rightarrow> string \<times> JSZipObject \<Rightarrow> (string \<times> FileInfo) option" where
  "place root e =
     (case e of (p, f) \<Rightarrow>
        if dir f then None
        else
          let ps = parts p in
          if root \<noteq> None \<and> ps \<noteq> [] \<and> Some (hd ps) = root then
            (if length ps \<ge> 3
             then Some (ps ! 1, \<lparr>path = join ''/'' (drop 2 ps), file' = f\<rparr>)
             else None)
          else if length ps \<ge> 2
          then Some (hd ps, \<lparr>path = join ''/'' (drop 1 ps), file' = f\<rparr>)
          else None)"

text \<open>
  \<^verbatim>\<open>if (!bucketFiles[bucketName]) bucketFiles[bucketName] = []; bucketFiles[bucketName].push(..)\<close>.
  For a name among the inherited properties the lookup is truthy, no array is stored, and
  \<^verbatim>\<open>push\<close> is not a function of what the lookup returns: a \<^verbatim>\<open>TypeError\<close>.
\<close>

definition push_is_not_a_function :: string where
  "push_is_not_a_function = ''bucketFiles[bucketName].push is not a function''"

definition push_file :: "BucketFiles \<Rightarrow> string \<Rightarrow> FileInfo \<Rightarrow> string + BucketFiles" where
  "push_file bucketFiles bucketName fi =
     (case map_of bucketFiles bucketName of
        Some fs \<Rightarrow> Inr (AList.update bucketName (fs @ [fi]) bucketFiles)
      | None \<Rightarrow>
          if bucketName \<in> set object_prototype_properties then Inl push_is_not_a_function
          else Inr (bucketFiles @ [(bucketName, [fi])]))"

text \<open>The second \<^verbatim>\<open>forEach\<close>; an exception ends it.\<close>

fun parse_entries ::
  "string option \<Rightarrow> (string \<times> JSZipObject) list \<Rightarrow> BucketFiles \<Rightarrow> string + BucketFiles" where
  "parse_entries root [] bucketFiles = Inr bucketFiles"
| "parse_entries root (e # es) bucketFiles =
     (case place root e of
        None \<Rightarrow> parse_entries root es bucketFiles
      | Some (bucketName, fi) \<Rightarrow>
          (case push_file bucketFiles bucketName fi of
             Inl err \<Rightarrow> Inl err
           | Inr bucketFiles' \<Rightarrow> parse_entries root es bucketFiles'))"

text \<open>
  What \<^verbatim>\<open>parseZipStructure\<close> returns, or the message of the exception it ends with. (The
  log entry it writes when it finds a root folder is added where the run calls it.)
\<close>

definition parseZipStructure_value :: "(string \<times> JSZipObject) list \<Rightarrow> string + BucketFiles" where
  "parseZipStructure_value entries = parse_entries (rootFolder entries) entries []"

text \<open>
  \<^verbatim>\<open>Object.keys\<close>, \<^verbatim>\<open>Object.values\<close> and \<^verbatim>\<open>Object.entries\<close> list the own properties
  whose key is an array index (a canonical decimal numeral below 4294967295) first, in
  increasing order, and the others after them in the order they were added.
\<close>

definition nat_of_string :: "string \<Rightarrow> nat" where
  "nat_of_string k = foldl (\<lambda>n c. 10 * n + index_of_digit c) 0 k"

definition is_array_index :: "string \<Rightarrow> bool" where
  "is_array_index k =
     (k \<noteq> [] \<and> list_all (\<lambda>c. c \<in> set ''0123456789'') k \<and>
      (k = ''0'' \<or> hd k \<noteq> CHR ''0'') \<and> nat_of_string k < 4294967295)"

definition object_entries :: "(string \<times> 'a) list \<Rightarrow> (string \<times> 'a) list" where
  "object_entries kvs =
     sort_key (\<lambda>kv. nat_of_string (fst kv)) (filter (\<lambda>kv. is_array_index (fst kv)) kvs) @
     filter (\<lambda>kv. \<not> is_array_index (fst kv)) kvs"

section \<open>The state of the page and the services it talks to\<close>

datatype severity = Info | Success | Error | Warning

record LogEntry =
  message :: string
  type :: severity
  timestamp :: string

datatype ActiveTab = live_tab | zip_tab

text \<open>
  A browser \<^verbatim>\<open>File\<close>: its name, its size, and what \<^verbatim>\<open>new JSZip().loadAsync\<close> makes of
  its bytes: \<^verbatim>\<open>Object.entries\<close> of the archive's \<^verbatim>\<open>files\<close>, or the message of the rejection.
\<close>

datatype File = File (file_name: string) (file_size: nat)
  (loadAsync: "string + (string \<times> JSZipObject) list")

text \<open>
  What a call to the storage client settles to: \<^verbatim>\<open>{ data, error: null }\<close>,
  \<^verbatim>\<open>{ data: null, error }\<close> with the error's message, or a thrown \<^verbatim>\<open>Error\<close> with its
  message. Both kinds of failure are instances of \<^verbatim>\<open>Error\<close>, so wherever the script
  reads \<^verbatim>\<open>err instanceof Error ? err.message : ..\<close> it reads the message.
\<close>

datatype 'a response = Data 'a | ErrorReturned string | Thrown string

fun failure :: "'a response \<Rightarrow> string option" where
  "failure (Data x) = None"
| "failure (ErrorReturned m) = Some m"
| "failure (Thrown m) = Some m"

definition is_ok :: "'a response \<Rightarrow> bool" where
  "is_ok r = (failure r = None)"

datatype client = Client string string

record Bucket =
  name :: string
  public :: bool

text \<open>
  An item of a listing: its name, \<^verbatim>\<open>metadata.mimetype\<close> when it has one, and what the
  source store answers when the path of this item is listed in turn (read only when the
  item is walked as a folder): the items there, or a failure with its message, returned or
  thrown (the \<^verbatim>\<open>catch\<close> block around the listing reads the message of either). The tree
  under a bucket is finite.
\<close>

datatype FileObject = FileObject (file_object_name: string) (mimetype: "string option")
  (listing: Listing)
and Listing = Files "FileObject list" | ListFails string

text \<open>
  Ghost state: what happened since the run began, in order. The requests made with whether
  they succeeded, the errors that \<^verbatim>\<open>catch\<close> blocks caught, named by the block, the two
  counters after each assignment to one of them, the entries appended to the log, and the
  clicks on a tab button. What a preview does that comes to its end while a run is under way
  is recorded under \<open>Meanwhile\<close>, so that the requests, the catches and the log entries in
  the trace of a run are the run's own.
\<close>

datatype request =
    CreateClient string string
  | ListBuckets client
  | CreateBucket client string bool
  | ListObjects client string string
  | Download client string string
  | Upload client string string blob js_value
  | LoadAsync
  | Async string string

datatype catch_site =
  LiveRun | LiveBucket | LiveListing | LiveObject | ZipRun | ZipBucket | ZipObject | Preview

datatype event =
    Call request bool
  | Caught catch_site string
  | Counters nat nat
  | Logged severity string
  | Click ActiveTab
  | Meanwhile event

record state =
  activeTab :: ActiveTab
  oldProjectUrl :: string
  oldProjectKey :: string
  newProjectUrl :: string
  newProjectKey :: string
  uploadedZip :: "File option"
  isProcessing :: bool
  progress :: nat
  totalItems :: nat
  logs :: "LogEntry list"
  error :: string
  success :: string
  detectedBuckets :: "string list"
  currentOperation :: string
  trace :: "event list"

text \<open>
  What is outside the script. The clock gives the time of the n-th log entry;
  \<^verbatim>\<open>createClient\<close> gives the message of the \<^verbatim>\<open>Error\<close> it throws, if it throws; the
  storage calls answer as they like, and may look at everything that happened before.

  The user is outside the script too. While the script waits for the answer to a request
  the page goes on. During a run every input and both start buttons are disabled
  (\<^verbatim>\<open>disabled={isProcessing}\<close>, \<^verbatim>\<open>disabled={!canMigrateLive}\<close>,
  \<^verbatim>\<open>disabled={!canMigrateFromZip}\<close>); the two tab buttons are not. And nothing keeps
  the user from starting a run while the preview of an archive chosen before is still reading
  it: \<^verbatim>\<open>handleZipUpload\<close> then takes up its work in the middle of the run. So two things
  can happen while a run waits: a click on a tab button, and the end of a preview of some
  file. \<open>interruptions\<close> says, from everything that happened up to and including the request,
  which of them happen before the answer is taken up, in order.
\<close>

datatype interruption = TabClick ActiveTab | PreviewEnds File

record env =
  toLocaleTimeString :: "nat \<Rightarrow> string"
  createClient :: "string \<Rightarrow> string \<Rightarrow> string option"
  listBuckets :: "event list \<Rightarrow> client \<Rightarrow> Bucket list response"
  createBucket :: "event list \<Rightarrow> client \<Rightarrow> string \<Rightarrow> bool \<Rightarrow> unit response"
  list_root :: "client \<Rightarrow> string \<Rightarrow> Listing"
  download :: "event list \<Rightarrow> client \<Rightarrow> string \<Rightarrow> string \<Rightarrow> blob response"
  upload :: "event list \<Rightarrow> client \<Rightarrow> string \<Rightarrow> string \<Rightarrow> blob \<Rightarrow> js_value \<Rightarrow> unit response"
  interruptions :: "event list \<Rightarrow> interruption list"

definition called :: "request \<Rightarrow> bool \<Rightarrow> state \<Rightarrow> state" where
  "called r ok s = s\<lparr>trace := trace s @ [Call r ok]\<rparr>"

definition caught :: "catch_site \<Rightarrow> string \<Rightarrow> state \<Rightarrow> state" where
  "caught site m s = s\<lparr>trace := trace s @ [Caught site m]\<rparr>"

definition set_progress :: "nat \<Rightarrow> state \<Rightarrow> state" where
  "set_progress n s = s\<lparr>progress := n, trace := trace s @ [Counters n (totalItems s)]\<rparr>"

definition set_totalItems :: "nat \<Rightarrow> state \<Rightarrow> state" where
  "set_totalItems n s = s\<lparr>totalItems := n, trace := trace s @ [Counters (progress s) n]\<rparr>"

text \<open>\<^verbatim>\<open>addLog\<close>; the scrolling of the log container is not part of the state.\<close>

definition addLog :: "env \<Rightarrow> string \<Rightarrow> severity \<Rightarrow> state \<Rightarrow> state" where
  "addLog e msg ty s =
     s\<lparr>logs := logs s @
        [\<lparr>message = msg, type = ty, timestamp = toLocaleTimeString e (length (logs s))\<rparr>],
       trace := trace s @ [Logged ty msg]\<rparr>"

text \<open>\<^verbatim>\<open>clearLogs\<close>, with its two assignments to the counters.\<close>

definition clearLogs :: "state \<Rightarrow> state" where
  "clearLogs s =
     s\<lparr>logs := [], error := [], success := [], progress := 0, totalItems := 0,
       currentOperation := [],
       trace := trace s @ [Counters 0 (totalItems s), Counters 0 0]\<rparr>"

text \<open>\<^verbatim>\<open>setActiveTab\<close>, the handler of both tab buttons.\<close>

definition setActiveTab :: "ActiveTab \<Rightarrow> state \<Rightarrow> state" where
  "setActiveTab tab s = clearLogs (s\<lparr>activeTab := tab, trace := trace s @ [Click tab]\<rparr>)"

text \<open>
  \<^verbatim>\<open>detectBucketsInZip\<close> from the moment \<^verbatim>\<open>loadAsync\<close> has settled: the rest of its
  \<^verbatim>\<open>try\<close> block, or its \<^verbatim>\<open>catch\<close>, which writes to the console, not to the log, and
  returns no bucket.
\<close>

fun detect_candidates :: "(string \<times> JSZipObject) list \<Rightarrow> string list \<Rightarrow> string list" where
  "detect_candidates [] buckets = buckets"
| "detect_candidates ((p, f) # es) buckets =
     detect_candidates es
       (if length (parts p) \<ge> 2 \<and> \<not> dir f
        then (if length (parts p) \<ge> 3
              then set_add (set_add buckets (hd (parts p))) (parts p ! 1)
              else set_add buckets (hd (parts p)))
        else buckets)"

definition detect_loaded :: "File \<Rightarrow> state \<Rightarrow> string list \<times> state" where
  "detect_loaded zipFile s =
     (case loadAsync zipFile of
        Inl m \<Rightarrow> ([], caught Preview m s)
      | Inr entries \<Rightarrow>
          (let buckets = detect_candidates entries [];
               filteredBuckets = filter (\<lambda>nm. \<not> looks_like_project_id nm) buckets
           in (if length filteredBuckets > 0 then filteredBuckets else buckets, s)))"

text \<open>
  \<^verbatim>\<open>handleZipUpload\<close> from the same moment: \<^verbatim>\<open>detectBucketsInZip\<close> returns and the
  handler reports what it returned. No \<^verbatim>\<open>await\<close> is left, so this runs in one piece.
\<close>

definition preview_ends :: "env \<Rightarrow> File \<Rightarrow> state \<Rightarrow> state" where
  "preview_ends e zipFile s =
     (case detect_loaded zipFile s of
        (buckets, s2) \<Rightarrow>
          (let s3 = s2\<lparr>detectedBuckets := buckets\<rparr> in
           if length buckets > 0
           then addLog e
                  (''Detected '' @ string_of_nat (length buckets) @ '' bucket(s): '' @
                   join '', '' buckets) Info s3
           else addLog e
                  ''Could not detect bucket structure. Will attempt to parse during migration.''
                  Warning s3))"

text \<open>
  What is done on the page while a handler waits, with its events recorded under
  \<open>Meanwhile\<close>.
\<close>

definition meanwhile :: "(state \<Rightarrow> state) \<Rightarrow> state \<Rightarrow> state" where
  "meanwhile f s =
     (let s' = f (s\<lparr>trace := []\<rparr>)
      in s'\<lparr>trace := trace s @ map Meanwhile (trace s')\<rparr>)"

fun interrupt :: "env \<Rightarrow> interruption \<Rightarrow> state \<Rightarrow> state" where
  "interrupt e (TabClick tab) s = setActiveTab tab s"
| "interrupt e (PreviewEnds zipFile) s = meanwhile (preview_ends e zipFile) s"

fun interrupted :: "env \<Rightarrow> interruption list \<Rightarrow> state \<Rightarrow> state" where
  "interrupted e [] s = s"
| "interrupted e (i # is) s = interrupted e is (interrupt e i s)"

text \<open>
  An \<^verbatim>\<open>await\<close> on a request to a service or to the archive reader: the request is made,
  the page goes on until the answer is there, and the script takes up its work on the page
  as that time left it. The other \<^verbatim>\<open>await\<close>s of the script wait for functions of the
  script itself (\<^verbatim>\<open>parseZipStructure\<close>, \<^verbatim>\<open>migrateFilesFromBucket\<close>,
  \<^verbatim>\<open>detectBucketsInZip\<close>); their result is taken up before the page does anything else.
\<close>

definition awaited :: "env \<Rightarrow> request \<Rightarrow> bool \<Rightarrow> state \<Rightarrow> state" where
  "awaited e r ok s =
     (let s1 = called r ok s
      in interrupted e (interruptions e (trace s1)) s1)"

text \<open>
  The two marks in front of the messages of success and of failure, as the bytes that the
  source file holds between the backquote and the first space.
\<close>

definition tick :: string where
  "tick = [CHR 0xE2, CHR 0x80, CHR 0x9A, CHR 0xC3, CHR 0xBA, CHR 0xC3, CHR 0xAC]"

definition cross :: string where
  "cross = [CHR 0xE2, CHR 0x80, CHR 0x9A, CHR 0xC3, CHR 0xBA, CHR 0xC3, CHR 0xB3]"

section \<open>Live migration\<close>

text \<open>
  The \<^verbatim>\<open>try\<close> block around one file of a listing: download, upload, count, and the
  \<^verbatim>\<open>catch\<close> that logs the failure.
\<close>

definition migrate_file ::
  "env \<Rightarrow> client \<Rightarrow> client \<Rightarrow> string \<Rightarrow> string \<Rightarrow> string \<Rightarrow> state \<Rightarrow> state" where
  "migrate_file e oldClient newClient bucketName filePath mime s =
     (let s1 = addLog e (''Downloading: '' @ filePath) Info s;
          d = download e (trace s1) oldClient bucketName filePath;
          s2 = awaited e (Download oldClient bucketName filePath) (is_ok d) s1
      in case d of
           Data fileData \<Rightarrow>
             (let s3 = addLog e (''Uploading: '' @ filePath) Info s2;
                  u = upload e (trace s3) newClient bucketName filePath fileData (JString mime);
                  s4 = awaited e (Upload newClient bucketName filePath fileData (JString mime))
                         (is_ok u) s3
              in case failure u of
                   None \<Rightarrow>
                     addLog e (tick @ '' Migrated: '' @ filePath) Success
                       (set_progress (progress s4 + 1) s4)
                 | Some m \<Rightarrow>
                     addLog e (cross @ '' Failed: '' @ filePath @ '' - '' @ m) Error
                       (caught LiveObject m s4))
         | ErrorReturned m \<Rightarrow>
             addLog e (cross @ '' Failed: '' @ filePath @ '' - '' @ m) Error
               (caught LiveObject m s2)
         | Thrown m \<Rightarrow>
             addLog e (cross @ '' Failed: '' @ filePath @ '' - '' @ m) Error
               (caught LiveObject m s2))"

text \<open>\<^verbatim>\<open>path ? `${path}/${file.name}` : file.name\<close>.\<close>

definition file_path :: "string \<Rightarrow> string \<Rightarrow> string" where
  "file_path path' nm = (if path' \<noteq> [] then path' @ ''/'' @ nm else nm)"

text \<open>\<^verbatim>\<open>file.metadata && file.metadata.mimetype\<close>: an empty string is falsy.\<close>

definition is_file :: "FileObject \<Rightarrow> bool" where
  "is_file f = (case mimetype f of None \<Rightarrow> False | Some m \<Rightarrow> m \<noteq> [])"

text \<open>
  \<^verbatim>\<open>migrateFilesFromBucket\<close>, with the answer of the source store to its \<^verbatim>\<open>list\<close> call
  as an argument, and the \<^verbatim>\<open>for\<close> loop over the listed items.
\<close>

fun migrateFilesFromBucket ::
  "env \<Rightarrow> client \<Rightarrow> client \<Rightarrow> string \<Rightarrow> string \<Rightarrow> Listing \<Rightarrow> state \<Rightarrow> state"
and migrate_items ::
  "env \<Rightarrow> client \<Rightarrow> client \<Rightarrow> string \<Rightarrow> string \<Rightarrow> FileObject list \<Rightarrow> state \<Rightarrow> state"
where
  "migrateFilesFromBucket e oldClient newClient bucketName path' (ListFails m) s =
     addLog e (''Error listing files in '' @ bucketName @ ''/'' @ path' @ '': '' @ m) Error
       (caught LiveListing m (awaited e (ListObjects oldClient bucketName path') False s))"
| "migrateFilesFromBucket e oldClient newClient bucketName path' (Files files) s =
     (let s1 = awaited e (ListObjects oldClient bucketName path') True s in
      if files = [] then s1
      else migrate_items e oldClient newClient bucketName path' files
             (set_totalItems (totalItems s1 + length files) s1))"
| "migrate_items e oldClient newClient bucketName path' [] s = s"
| "migrate_items e oldClient newClient bucketName path' (FileObject nm mt sub # fs) s =
     migrate_items e oldClient newClient bucketName path' fs
       (if is_file (FileObject nm mt sub)
        then migrate_file e oldClient newClient bucketName (file_path path' nm) (the mt) s
        else migrateFilesFromBucket e oldClient newClient bucketName (file_path path' nm) sub s)"

text \<open>Creating one bucket at the destination, with its \<^verbatim>\<open>try\<close> and \<^verbatim>\<open>catch\<close>.\<close>

definition create_bucket_live :: "env \<Rightarrow> client \<Rightarrow> Bucket \<Rightarrow> state \<Rightarrow> state" where
  "create_bucket_live e newClient bucket s =
     (let r = createBucket e (trace s) newClient (name bucket) (public bucket);
          s1 = awaited e (CreateBucket newClient (name bucket) (public bucket)) (is_ok r) s
      in case r of
           Data u \<Rightarrow> addLog e (tick @ '' Created bucket: '' @ name bucket) Success s1
         | ErrorReturned m \<Rightarrow>
             if \<not> str_includes m ''already exists''
             then addLog e (''Bucket '' @ name bucket @ '' already exists, continuing...'') Info
                    (caught LiveBucket m s1)
             else s1
         | Thrown m \<Rightarrow>
             addLog e (''Bucket '' @ name bucket @ '' already exists, continuing...'') Info
               (caught LiveBucket m s1))"

text \<open>The body of the loop over the buckets of the source, and the loop.\<close>

definition migrate_bucket :: "env \<Rightarrow> client \<Rightarrow> client \<Rightarrow> Bucket \<Rightarrow> state \<Rightarrow> state" where
  "migrate_bucket e oldClient newClient bucket s =
     migrateFilesFromBucket e oldClient newClient (name bucket) []
       (list_root e oldClient (name bucket))
       (create_bucket_live e newClient bucket
          (addLog e (CHR 0x0A # ''Processing bucket: '' @ name bucket) Info s))"

fun migrate_buckets :: "env \<Rightarrow> client \<Rightarrow> client \<Rightarrow> Bucket list \<Rightarrow> state \<Rightarrow> state" where
  "migrate_buckets e oldClient newClient [] s = s"
| "migrate_buckets e oldClient newClient (bucket # buckets) s =
     migrate_buckets e oldClient newClient buckets
       (migrate_bucket e oldClient newClient bucket s)"

text \<open>The outer \<^verbatim>\<open>catch\<close> of both runs.\<close>

definition migration_failed :: "env \<Rightarrow> catch_site \<Rightarrow> string \<Rightarrow> state \<Rightarrow> state" where
  "migration_failed e site m s =
     addLog e (''Migration failed: '' @ m) Error ((caught site m s)\<lparr>error := m\<rparr>)"

text \<open>The \<^verbatim>\<open>try\<close> block of \<^verbatim>\<open>migrateLiveProject\<close> from the bucket listing on.\<close>

definition live_from_listing :: "env \<Rightarrow> client \<Rightarrow> client \<Rightarrow> state \<Rightarrow> state" where
  "live_from_listing e oldClient newClient s =
     (let s1 = addLog e ''Fetching buckets from source project...'' Info s;
          r = listBuckets e (trace s1) oldClient;
          s2 = awaited e (ListBuckets oldClient) (is_ok r) s1
      in case r of
           ErrorReturned m \<Rightarrow> migration_failed e LiveRun (''Failed to list buckets: '' @ m) s2
         | Thrown m \<Rightarrow> migration_failed e LiveRun m s2
         | Data buckets \<Rightarrow>
             if buckets = [] then
               (addLog e ''No buckets found in source project'' Warning s2)
                 \<lparr>success := ''Migration completed (no buckets found)''\<rparr>
             else
               (let s3 = addLog e
                           (''Found '' @ string_of_nat (length buckets) @ '' bucket(s): '' @
                            join '', '' (map name buckets)) Info s2;
                    s4 = migrate_buckets e oldClient newClient buckets s3
                in s4\<lparr>success :=
                        ''Migration completed! Processed '' @ string_of_nat (length buckets) @
                        '' bucket(s) with '' @ string_of_nat (progress s4) @ '' total files.''\<rparr>))"

text \<open>\<^verbatim>\<open>migrateLiveProject\<close>. The ghost trace starts again with the run.\<close>

definition migrateLiveProject :: "env \<Rightarrow> state \<Rightarrow> state" where
  "migrateLiveProject e s =
     (let s1 = (clearLogs (s\<lparr>trace := []\<rparr>))\<lparr>isProcessing := True,
                 currentOperation := ''Migrating from live project''\<rparr>;
          s2 = addLog e ''Initializing Supabase clients...'' Info s1;
          s3 = (case createClient e (oldProjectUrl s2) (oldProjectKey s2) of
                  Some m \<Rightarrow>
                    migration_failed e LiveRun m
                      (called (CreateClient (oldProjectUrl s2) (oldProjectKey s2)) False s2)
                | None \<Rightarrow>
                    (let s2a = called (CreateClient (oldProjectUrl s2) (oldProjectKey s2)) True s2
                     in case createClient e (newProjectUrl s2a) (newProjectKey s2a) of
                          Some m \<Rightarrow>
                            migration_failed e LiveRun m
                              (called (CreateClient (newProjectUrl s2a) (newProjectKey s2a))
                                 False s2a)
                        | None \<Rightarrow>
                            live_from_listing e
                              (Client (oldProjectUrl s2a) (oldProjectKey s2a))
                              (Client (newProjectUrl s2a) (newProjectKey s2a))
                              (called (CreateClient (newProjectUrl s2a) (newProjectKey s2a))
                                 True s2a)))
      in s3\<lparr>isProcessing := False\<rparr>)"

section \<open>Migration from an archive\<close>

text \<open>
  \<^verbatim>\<open>parseZipStructure\<close>: the log entry for a detected root folder is written before the
  second pass, so it stays in the log when that pass throws.
\<close>

definition parseZipStructure ::
  "env \<Rightarrow> (string \<times> JSZipObject) list \<Rightarrow> state \<Rightarrow> (string + BucketFiles) \<times> state" where
  "parseZipStructure e entries s =
     (parseZipStructure_value entries,
      (case rootFolder entries of
         Some r \<Rightarrow> addLog e (''Detected root folder (project ID): '' @ r) Info s
       | None \<Rightarrow> s))"

text \<open>The \<^verbatim>\<open>try\<close> block around one file of a bucket, and its \<^verbatim>\<open>catch\<close>.\<close>

definition upload_file :: "env \<Rightarrow> client \<Rightarrow> string \<Rightarrow> FileInfo \<Rightarrow> state \<Rightarrow> state" where
  "upload_file e newClient bucketName fileInfo s =
     (case async (file' fileInfo) of
        Inl m \<Rightarrow>
          (let s1 = awaited e (Async bucketName (path fileInfo)) False s;
               s2 = addLog e
                      (cross @ '' Failed: '' @ bucketName @ ''/'' @ path fileInfo @ '' - '' @ m)
                      Error (caught ZipObject m s1)
           in set_progress (progress s2 + 1) s2)
      | Inr arrayBuffer \<Rightarrow>
          (let s1 = awaited e (Async bucketName (path fileInfo)) True s;
               u = upload e (trace s1) newClient bucketName (path fileInfo) arrayBuffer
                     (getMimeType (path fileInfo));
               s2 = awaited e (Upload newClient bucketName (path fileInfo) arrayBuffer
                              (getMimeType (path fileInfo))) (is_ok u) s1
           in case failure u of
                None \<Rightarrow>
                  addLog e (tick @ '' Uploaded: '' @ bucketName @ ''/'' @ path fileInfo) Success
                    (set_progress (progress s2 + 1) s2)
              | Some m \<Rightarrow>
                  (let s3 = addLog e
                              (cross @ '' Failed: '' @ bucketName @ ''/'' @ path fileInfo @
                               '' - '' @ m)
                              Error (caught ZipObject m s2)
                   in set_progress (progress s3 + 1) s3)))"

fun upload_files :: "env \<Rightarrow> client \<Rightarrow> string \<Rightarrow> FileInfo list \<Rightarrow> state \<Rightarrow> state" where
  "upload_files e newClient bucketName [] s = s"
| "upload_files e newClient bucketName (fileInfo # files) s =
     upload_files e newClient bucketName files (upload_file e newClient bucketName fileInfo s)"

text \<open>
  Creating a bucket that is not among the existing ones. The result says whether the loop
  goes on to the files of the bucket (\<open>True\<close>) or takes the \<^verbatim>\<open>continue\<close> (\<open>False\<close>).
\<close>

definition create_bucket_zip :: "env \<Rightarrow> client \<Rightarrow> string \<Rightarrow> state \<Rightarrow> bool \<times> state" where
  "create_bucket_zip e newClient bucketName s =
     (let r = createBucket e (trace s) newClient bucketName False;
          s1 = awaited e (CreateBucket newClient bucketName False) (is_ok r) s
      in case failure r of
           None \<Rightarrow> (True, addLog e (tick @ '' Created bucket: '' @ bucketName) Success s1)
         | Some m \<Rightarrow>
             if \<not> str_includes m ''already exists''
             then (False,
                   addLog e (cross @ '' Failed to create bucket '' @ bucketName @ '': '' @ m)
                     Error (caught ZipBucket m s1))
             else (True, caught ZipBucket m s1))"

text \<open>The body of the loop over \<^verbatim>\<open>Object.entries(bucketFiles)\<close>, and the loop.\<close>

definition upload_bucket ::
  "env \<Rightarrow> client \<Rightarrow> string list \<Rightarrow> string \<Rightarrow> FileInfo list \<Rightarrow> state \<Rightarrow> state" where
  "upload_bucket e newClient existingBucketNames bucketName files s =
     (let s1 = addLog e (CHR 0x0A # ''Processing bucket: '' @ bucketName) Info s in
      if bucketName \<notin> set existingBucketNames then
        (case create_bucket_zip e newClient bucketName s1 of
           (True, s2) \<Rightarrow> upload_files e newClient bucketName files s2
         | (False, s2) \<Rightarrow> s2)
      else upload_files e newClient bucketName files s1)"

fun upload_buckets ::
  "env \<Rightarrow> client \<Rightarrow> string list \<Rightarrow> (string \<times> FileInfo list) list \<Rightarrow> state \<Rightarrow> state" where
  "upload_buckets e newClient existingBucketNames [] s = s"
| "upload_buckets e newClient existingBucketNames ((bucketName, files) # rest) s =
     upload_buckets e newClient existingBucketNames rest
       (upload_bucket e newClient existingBucketNames bucketName files s)"

text \<open>
  The rest of the \<^verbatim>\<open>try\<close> block once the buckets of the archive are known:
  \<^verbatim>\<open>existingBuckets ? existingBuckets.map(b => b.name) : []\<close> reads only \<^verbatim>\<open>data\<close>, so an
  error that \<^verbatim>\<open>listBuckets\<close> returns is not looked at.
\<close>

definition upload_all :: "env \<Rightarrow> client \<Rightarrow> BucketFiles \<Rightarrow> state \<Rightarrow> state" where
  "upload_all e newClient bucketFiles s =
     (let buckets = map fst (object_entries bucketFiles);
          s1 = addLog e
                 (''Found '' @ string_of_nat (length buckets) @ '' bucket(s): '' @
                  join '', '' buckets) Info s;
          s2 = set_totalItems
                 (foldl (\<lambda>sum files. sum + length files) 0 (map snd (object_entries bucketFiles)))
                 s1;
          s3 = addLog e (''Total files to upload: '' @ string_of_nat (totalItems s2)) Info s2;
          r = listBuckets e (trace s3) newClient;
          s4 = awaited e (ListBuckets newClient) (is_ok r) s3
      in case r of
           Thrown m \<Rightarrow> migration_failed e ZipRun m s4
         | ErrorReturned m \<Rightarrow>
             (let s5 = upload_buckets e newClient [] (object_entries bucketFiles) s4
              in s5\<lparr>success :=
                      ''Migration completed! Uploaded '' @ string_of_nat (progress s5) @
                      '' out of '' @ string_of_nat (totalItems s5) @ '' files.''\<rparr>)
         | Data existingBuckets \<Rightarrow>
             (let s5 = upload_buckets e newClient (map name existingBuckets)
                         (object_entries bucketFiles) s4
              in s5\<lparr>success :=
                      ''Migration completed! Uploaded '' @ string_of_nat (progress s5) @
                      '' out of '' @ string_of_nat (totalItems s5) @ '' files.''\<rparr>))"

definition no_valid_bucket_structure :: string where
  "no_valid_bucket_structure = ''No valid bucket structure found in ZIP file''"

definition migrate_entries ::
  "env \<Rightarrow> client \<Rightarrow> (string \<times> JSZipObject) list \<Rightarrow> state \<Rightarrow> state" where
  "migrate_entries e newClient entries s =
     (case parseZipStructure e entries s of
        (Inl m, s1) \<Rightarrow> migration_failed e ZipRun m s1
      | (Inr bucketFiles, s1) \<Rightarrow>
          if map fst (object_entries bucketFiles) = []
          then migration_failed e ZipRun no_valid_bucket_structure s1
          else upload_all e newClient bucketFiles s1)"

text \<open>\<^verbatim>\<open>migrateFromZip\<close>. The ghost trace starts again with the run.\<close>

definition migrateFromZip :: "env \<Rightarrow> state \<Rightarrow> state" where
  "migrateFromZip e s =
     (case uploadedZip s of
        None \<Rightarrow> s
      | Some zipFile \<Rightarrow>
          (let s1 = (clearLogs (s\<lparr>trace := []\<rparr>))\<lparr>isProcessing := True,
                      currentOperation := ''Migrating from ZIP file''\<rparr>;
               s2 = addLog e ''Initializing Supabase client...'' Info s1;
               s3 = (case createClient e (newProjectUrl s2) (newProjectKey s2) of
                       Some m \<Rightarrow>
                         migration_failed e ZipRun m
                           (called (CreateClient (newProjectUrl s2) (newProjectKey s2)) False s2)
                     | None \<Rightarrow>
                         (let s2a = addLog e ''Loading ZIP file...'' Info
                                      (called (CreateClient (newProjectUrl s2) (newProjectKey s2))
                                         True s2)
                          in case loadAsync zipFile of
                               Inl m \<Rightarrow> migration_failed e ZipRun m (awaited e LoadAsync False s2a)
                             | Inr entries \<Rightarrow>
                                 migrate_entries e
                                   (Client (newProjectUrl s2a) (newProjectKey s2a)) entries
                                   (awaited e LoadAsync True s2a)))
           in s3\<lparr>isProcessing := False\<rparr>))"

section \<open>The preview of an uploaded archive\<close>

text \<open>
  \<^verbatim>\<open>detectBucketsInZip\<close>. The preview is not a run: the processing flag stays as it is
  while the archive is read.
\<close>

definition detectBucketsInZip :: "env \<Rightarrow> File \<Rightarrow> state \<Rightarrow> string list \<times> state" where
  "detectBucketsInZip e zipFile s =
     detect_loaded zipFile (awaited e LoadAsync (\<not> isl (loadAsync zipFile)) s)"

text \<open>
  \<^verbatim>\<open>(file.size / 1024 / 1024).toFixed(2)\<close>. The size is a whole number of bytes and the two
  divisions by a power of two are exact, so the result is the size in units of \<open>2^20\<close>
  rounded to hundredths, a half rounded up.
\<close>

definition megabytes :: "nat \<Rightarrow> string" where
  "megabytes size' =
     (let n = (200 * size' + 1048576) div 2097152
      in string_of_nat (n div 100) @ ''.'' @ [digit_char (n mod 100 div 10), digit_char (n mod 10)])"

text \<open>\<^verbatim>\<open>s.endsWith(suffix)\<close>.\<close>

definition endsWith :: "string \<Rightarrow> string \<Rightarrow> bool" where
  "endsWith s suffix = starts_with (rev s) (rev suffix)"

text \<open>
  \<^verbatim>\<open>handleZipUpload\<close>, with the file of the input element, if it has one, as argument.
  A run that begins while the preview reads its archive is followed from the side of the
  run, where the end of the preview is one of the interruptions.
\<close>

definition handleZipUpload :: "env \<Rightarrow> File option \<Rightarrow> state \<Rightarrow> state" where
  "handleZipUpload e chosen s =
     (case chosen of
        None \<Rightarrow> s\<lparr>error := ''Please select a valid ZIP file'', uploadedZip := None\<rparr>
      | Some zipFile \<Rightarrow>
          if endsWith (file_name zipFile) ''.zip'' then
            (let s1 = addLog e
                        (''ZIP file selected: '' @ file_name zipFile @ '' ('' @
                         megabytes (file_size zipFile) @ '' MB)'') Info
                        (s\<lparr>uploadedZip := Some zipFile\<rparr>)
             in case detectBucketsInZip e zipFile s1 of
                  (buckets, s2) \<Rightarrow>
                    (let s3 = s2\<lparr>detectedBuckets := buckets\<rparr> in
                     if length buckets > 0
                     then addLog e
                            (''Detected '' @ string_of_nat (length buckets) @ '' bucket(s): '' @
                             join '', '' buckets) Info s3
                     else addLog e
                            ''Could not detect bucket structure. Will attempt to parse during migration.''
                            Warning s3))
          else s\<lparr>error := ''Please select a valid ZIP file'', uploadedZip := None\<rparr>)"

section \<open>Properties of a run\<close>

text \<open>
  The page keeps no variable for the state of a run. It is read off the page: the
  processing flag, whether one of the two outer \<^verbatim>\<open>catch\<close> blocks ran, and the success
  message.
\<close>

datatype run_state = Idle | Running | Completed | Failed

fun is_run_catch :: "event \<Rightarrow> bool" where
  "is_run_catch (Caught site m) = (site = LiveRun \<or> site = ZipRun)"
| "is_run_catch ev = False"

definition run_state :: "state \<Rightarrow> run_state" where
  "run_state s =
     (if isProcessing s then Running
      else if list_ex is_run_catch (trace s) then Failed
      else if success s \<noteq> [] then Completed
      else Idle)"

text \<open>The entries of the log with severity \<open>Error\<close>.\<close>

definition is_error_entry :: "LogEntry \<Rightarrow> bool" where
  "is_error_entry l = (type l = Error)"

definition error_entries :: "state \<Rightarrow> LogEntry list" where
  "error_entries s = filter is_error_entry (logs s)"

text \<open>The errors that a \<^verbatim>\<open>catch\<close> block of the run caught.\<close>

fun is_caught :: "event \<Rightarrow> bool" where
  "is_caught (Caught site m) = True"
| "is_caught ev = False"

definition caught_errors :: "state \<Rightarrow> event list" where
  "caught_errors s = filter is_caught (trace s)"

text \<open>The requests that failed, whether the failure was thrown, caught or only returned.\<close>

fun is_failed_call :: "event \<Rightarrow> bool" where
  "is_failed_call (Call r ok) = (\<not> ok)"
| "is_failed_call ev = False"

definition failed_calls :: "state \<Rightarrow> event list" where
  "failed_calls s = filter is_failed_call (trace s)"

text \<open>
  What a run does, in order: its requests, the errors its \<^verbatim>\<open>catch\<close> blocks take, and the
  entries it appends to the log. The clicks, the assignments to the counters and what a
  preview did meanwhile are left out.
\<close>

fun is_deed :: "event \<Rightarrow> bool" where
  "is_deed (Call r ok) = True"
| "is_deed (Caught site m) = True"
| "is_deed (Logged ty msg) = True"
| "is_deed ev = False"

definition deeds :: "state \<Rightarrow> event list" where
  "deeds s = filter is_deed (trace s)"

text \<open>A log entry of severity \<open>Error\<close> whose message carries the message of the error.\<close>

fun reports :: "string \<Rightarrow> event \<Rightarrow> bool" where
  "reports m (Logged ty msg) = (ty = Error \<and> str_includes msg m)"
| "reports m ev = False"

text \<open>
  The \<^verbatim>\<open>catch\<close> blocks that append no entry of severity \<open>Error\<close>: the one around bucket
  creation in a live run, the one around bucket creation in a run from an archive when the
  answer is an ``already exists'', and the one of the preview.
\<close>

definition silent :: "catch_site \<Rightarrow> string \<Rightarrow> bool" where
  "silent site m =
     (site = LiveBucket \<or> site = Preview \<or>
      (site = ZipBucket \<and> str_includes m ''already exists''))"

fun is_listing :: "request \<Rightarrow> bool" where
  "is_listing (ListBuckets c) = True"
| "is_listing r = False"

fun is_creation :: "request \<Rightarrow> bool" where
  "is_creation (CreateBucket c b p) = True"
| "is_creation r = False"

text \<open>
  No failure goes unnoticed: in the deeds of a run, a request that failed is followed at
  once by the \<^verbatim>\<open>catch\<close> that takes its error, unless the request is excused, and a
  \<^verbatim>\<open>catch\<close> is followed at once by an entry of severity \<open>Error\<close> with the message of the
  error, unless it is one of the silent ones.
\<close>

fun surfaced :: "(request \<Rightarrow> bool) \<Rightarrow> event list \<Rightarrow> bool" where
  "surfaced excused [] = True"
| "surfaced excused (Call r ok # evs) =
     ((ok \<or> excused r \<or> (evs \<noteq> [] \<and> is_caught (hd evs))) \<and> surfaced excused evs)"
| "surfaced excused (Caught site m # evs) =
     ((silent site m \<or> (evs \<noteq> [] \<and> reports m (hd evs))) \<and> surfaced excused evs)"
| "surfaced excused (ev # evs) = surfaced excused evs"

text \<open>
  The entries appended to the log since a tab button was last clicked, by the run or by a
  preview that ended meanwhile, and the page whose log holds exactly these, in their order.
\<close>

fun is_click :: "event \<Rightarrow> bool" where
  "is_click (Click tab) = True"
| "is_click ev = False"

definition since_click :: "event list \<Rightarrow> event list" where
  "since_click evs = rev (takeWhile (\<lambda>ev. \<not> is_click ev) (rev evs))"

fun logged :: "event list \<Rightarrow> (severity \<times> string) list" where
  "logged [] = []"
| "logged (Logged ty msg # evs) = (ty, msg) # logged evs"
| "logged (Meanwhile (Logged ty msg) # evs) = (ty, msg) # logged evs"
| "logged (ev # evs) = logged evs"

definition log_agrees :: "state \<Rightarrow> bool" where
  "log_agrees s = (map (\<lambda>l. (type l, message l)) (logs s) = logged (since_click (trace s)))"

text \<open>Every failure so far has surfaced, and the log agrees with what was appended to it.\<close>

definition accounted :: "(request \<Rightarrow> bool) \<Rightarrow> state \<Rightarrow> bool" where
  "accounted excused s = (surfaced excused (deeds s) \<and> log_agrees s)"

text \<open>
  What the page leaves in the trace while a request is pending: the clicks, the counters
  they reset, and what a preview did.
\<close>

fun is_aside :: "event \<Rightarrow> bool" where
  "is_aside (Click tab) = True"
| "is_aside (Counters p t) = True"
| "is_aside (Meanwhile ev) = True"
| "is_aside ev = False"

text \<open>No tab button is clicked while a request is pending.\<close>

fun is_tab_click :: "interruption \<Rightarrow> bool" where
  "is_tab_click (TabClick tab) = True"
| "is_tab_click i = False"

definition no_tab_click :: "env \<Rightarrow> bool" where
  "no_tab_click e = (\<forall>h. \<not> list_ex is_tab_click (interruptions e h))"

text \<open>The values of \<^verbatim>\<open>progress\<close> and \<^verbatim>\<open>totalItems\<close> after each assignment, in order.\<close>

fun counters :: "event list \<Rightarrow> (nat \<times> nat) list" where
  "counters [] = []"
| "counters (Counters p t # evs) = (p, t) # counters evs"
| "counters (ev # evs) = counters evs"

definition within_total :: "nat \<times> nat \<Rightarrow> bool" where
  "within_total c = (fst c \<le> snd c)"

definition steady :: "event list \<Rightarrow> bool" where
  "steady evs = (sorted (map fst (counters evs)) \<and> list_all within_total (counters evs))"

definition has_total :: "nat \<Rightarrow> nat \<times> nat \<Rightarrow> bool" where
  "has_total n c = (snd c = n)"

text \<open>Requests that move an object: reading it and writing it.\<close>

fun is_transfer :: "event \<Rightarrow> bool" where
  "is_transfer (Call (Download c b p) ok) = True"
| "is_transfer (Call (Async b p) ok) = True"
| "is_transfer (Call (Upload c b p d m) ok) = True"
| "is_transfer ev = False"

definition transfers :: "state \<Rightarrow> event list" where
  "transfers s = filter is_transfer (trace s)"

text \<open>Requests that write to the destination: creating a bucket and uploading.\<close>

fun is_write :: "event \<Rightarrow> bool" where
  "is_write (Call (CreateBucket c b p) ok) = True"
| "is_write (Call (Upload c b p d m) ok) = True"
| "is_write ev = False"

fun creates_public_bucket :: "event \<Rightarrow> bool" where
  "creates_public_bucket (Call (CreateBucket c b p) ok) = p"
| "creates_public_bucket ev = False"

text \<open>An entry of the archive that the inferencer keeps: a file with enough segments.\<close>

definition kept :: "string option \<Rightarrow> string \<times> JSZipObject \<Rightarrow> bool" where
  "kept root entry =
     (\<not> dir (snd entry) \<and> length (parts (fst entry)) \<ge> (if root = None then 2 else 3))"

text \<open>
  The files that the entries of an archive give to one bucket, in the order of the entries,
  and the files under a name in the result of the inferencer.
\<close>

definition placed_in :: "string option \<Rightarrow> string \<Rightarrow> string \<times> JSZipObject \<Rightarrow> FileInfo option" where
  "placed_in root b entry =
     (case place root entry of
        None \<Rightarrow> None
      | Some (b', fi) \<Rightarrow> if b' = b then Some fi else None)"

definition files_for :: "string option \<Rightarrow> string \<Rightarrow> (string \<times> JSZipObject) list \<Rightarrow> FileInfo list" where
  "files_for root b entries = List.map_filter (placed_in root b) entries"

definition files_of :: "BucketFiles \<Rightarrow> string \<Rightarrow> FileInfo list" where
  "files_of bucketFiles b = (case map_of bucketFiles b of None \<Rightarrow> [] | Some fs \<Rightarrow> fs)"

text \<open>No entry of the archive is placed in a bucket named like an inherited property.\<close>

definition plain_names :: "string option \<Rightarrow> (string \<times> JSZipObject) list \<Rightarrow> bool" where
  "plain_names root entries =
     list_all (\<lambda>entry. case place root entry of
                         None \<Rightarrow> True
                       | Some (b, fi) \<Rightarrow> b \<notin> set object_prototype_properties) entries"

text \<open>The number of files of a plan.\<close>

definition file_count :: "BucketFiles \<Rightarrow> nat" where
  "file_count bucketFiles = sum_list (map (\<lambda>kv. length (snd kv)) bucketFiles)"





text \<open>
  The requests among a list of events, and the requests that move the files of a plan:
  for each file the decompression and, when that gives the bytes, their upload under the
  path of the file with the content type the resolver gives for the path.
\<close>

fun requests :: "event list \<Rightarrow> request list" where
  "requests [] = []"
| "requests (Call r ok # evs) = r # requests evs"
| "requests (ev # evs) = requests evs"

definition asked :: "state \<Rightarrow> request list" where
  "asked s = requests (trace s)"

definition file_requests :: "client \<Rightarrow> string \<Rightarrow> FileInfo \<Rightarrow> request list" where
  "file_requests c b fi =
     Async b (path fi) #
     (case async (file' fi) of
        Inl m \<Rightarrow> []
      | Inr d \<Rightarrow> [Upload c b (path fi) d (getMimeType (path fi))])"

definition plan_requests :: "client \<Rightarrow> (string \<times> FileInfo list) list \<Rightarrow> request list" where
  "plan_requests c plan =
     concat (map (\<lambda>(b, files). concat (map (file_requests c b) files)) plan)"


fun creates_private :: "string \<Rightarrow> event \<Rightarrow> bool" where
  "creates_private b (Call (CreateBucket c b' p) ok) = (b' = b \<and> \<not> p)"
| "creates_private b ev = False"

text \<open>
  How a part of a run leaves the page: the trace grows by events of a given kind, no
  message of error or of success appears, and the processing flag stays as it is.
\<close>

definition step :: "(event \<Rightarrow> bool) \<Rightarrow> state \<Rightarrow> state \<Rightarrow> bool" where
  "step K s s' =
     ((\<exists>new. trace s' = trace s @ new \<and> list_all K new) \<and>
      (error s = [] \<longrightarrow> error s' = []) \<and> (success s = [] \<longrightarrow> success s' = []) \<and>
      isProcessing s' = isProcessing s)"

text \<open>The events of the loops of a live run: anything but an outer \<^verbatim>\<open>catch\<close>.\<close>

definition live_event :: "event \<Rightarrow> bool" where
  "live_event ev = (\<not> is_run_catch ev)"

text \<open>The events of the loops of a run from an archive: no outer \<^verbatim>\<open>catch\<close>, no public bucket.\<close>

fun zip_event :: "event \<Rightarrow> bool" where
  "zip_event (Caught site m) = (site = ZipBucket \<or> site = ZipObject)"
| "zip_event (Call (CreateBucket c b p) ok) = (\<not> p)"
| "zip_event ev = True"

text \<open>The counters agree with the last snapshot, and the snapshots are steady.\<close>

definition tracked :: "state \<Rightarrow> bool" where
  "tracked s =
     (counters (trace s) \<noteq> [] \<and> last (counters (trace s)) = (progress s, totalItems s) \<and>
      steady (trace s))"

text \<open>
  A bucket creation of a run from an archive was refused: its \<^verbatim>\<open>catch\<close> caught an error that
  is not an ``already exists''.
\<close>

fun is_creation_refusal :: "event \<Rightarrow> bool" where
  "is_creation_refusal (Caught site m) = (site = ZipBucket \<and> \<not> str_includes m ''already exists'')"
| "is_creation_refusal ev = False"

definition creation_refused :: "state \<Rightarrow> bool" where
  "creation_refused s = list_ex is_creation_refusal (trace s)"

text \<open>The destination answers \<^verbatim>\<open>listBuckets\<close> without throwing.\<close>

definition listing_answered :: "env \<Rightarrow> bool" where
  "listing_answered e =
     (\<forall>h c. case listBuckets e h c of Thrown m \<Rightarrow> False | Data bs \<Rightarrow> True | ErrorReturned m \<Rightarrow> True)"

text \<open>
  The page of a run from an archive at three points of its \<^verbatim>\<open>try\<close> block: at its first
  log entry, once the client is made, and once the archive is loaded and parsed.
\<close>

definition zip_started :: "env \<Rightarrow> state \<Rightarrow> state" where
  "zip_started e s =
     addLog e ''Initializing Supabase client...'' Info
       ((clearLogs (s\<lparr>trace := []\<rparr>))\<lparr>isProcessing := True, currentOperation := ''Migrating from ZIP file''\<rparr>)"

definition zip_loading :: "env \<Rightarrow> state \<Rightarrow> state" where
  "zip_loading e s =
     addLog e ''Loading ZIP file...'' Info
       (called (CreateClient (newProjectUrl s) (newProjectKey s)) True (zip_started e s))"

definition zip_parsed :: "env \<Rightarrow> state \<Rightarrow> (string \<times> JSZipObject) list \<Rightarrow> state" where
  "zip_parsed e s entries =
     snd (parseZipStructure e entries (awaited e LoadAsync True (zip_loading e s)))"

text \<open>The client of the destination.\<close>

definition destination :: "state \<Rightarrow> client" where
  "destination s = Client (newProjectUrl s) (newProjectKey s)"

definition source :: "state \<Rightarrow> client" where
  "source s = Client (oldProjectUrl s) (oldProjectKey s)"

text \<open>The page of a live run at its first log entry and once both clients are made.\<close>

definition live_started :: "env \<Rightarrow> state \<Rightarrow> state" where
  "live_started e s =
     addLog e ''Initializing Supabase clients...'' Info
       ((clearLogs (s\<lparr>trace := []\<rparr>))\<lparr>isProcessing := True, currentOperation := ''Migrating from live project''\<rparr>)"

definition live_connected :: "env \<Rightarrow> state \<Rightarrow> state" where
  "live_connected e s =
     called (CreateClient (newProjectUrl s) (newProjectKey s)) True
       (called (CreateClient (oldProjectUrl s) (oldProjectKey s)) True (live_started e s))"

section \<open>Concrete runs\<close>

text \<open>
  Services whose answers do not depend on what happened before: the answer to
  \<^verbatim>\<open>listBuckets\<close>, to the creation of a bucket by name, the listing under a bucket, and the
  answers to a download and to an upload by bucket and path. Nothing happens on the page
  while a request is pending.
\<close>

definition services ::
  "Bucket list response \<Rightarrow> (string \<Rightarrow> unit response) \<Rightarrow> (string \<Rightarrow> Listing) \<Rightarrow>
   (string \<Rightarrow> string \<Rightarrow> blob response) \<Rightarrow> (string \<Rightarrow> string \<Rightarrow> unit response) \<Rightarrow> env" where
  "services buckets create root get put =
     \<lparr>toLocaleTimeString = (\<lambda>n. ''12:00:00''),
      createClient = (\<lambda>url key. None),
      listBuckets = (\<lambda>h c. buckets),
      createBucket = (\<lambda>h c b p. create b),
      list_root = (\<lambda>c b. root b),
      download = (\<lambda>h c b p. get b p),
      upload = (\<lambda>h c b p d m. put b p),
      interruptions = (\<lambda>h. [])\<rparr>"

text \<open>A page with its four fields filled in and, for a run from an archive, a file chosen.\<close>

definition page :: "File option \<Rightarrow> state" where
  "page zipFile =
     \<lparr>activeTab = (case zipFile of None \<Rightarrow> live_tab | Some f \<Rightarrow> zip_tab),
      oldProjectUrl = ''https://old.supabase.co'', oldProjectKey = ''old-key'',
      newProjectUrl = ''https://new.supabase.co'', newProjectKey = ''new-key'',
      uploadedZip = zipFile, isProcessing = False, progress = 0, totalItems = 0,
      logs = [], error = [], success = [], detectedBuckets = [], currentOperation = [],
      trace = []\<rparr>"

text \<open>A source with the one private bucket \<^verbatim>\<open>photos\<close> holding the one file \<^verbatim>\<open>a.png\<close>.\<close>

definition photos :: "Bucket list response" where
  "photos = Data [\<lparr>name = ''photos'', public = False\<rparr>]"

definition one_png :: "string \<Rightarrow> Listing" where
  "one_png b = Files [FileObject ''a.png'' (Some ''image/png'') (Files [])]"

text \<open>The download of the file fails.\<close>

definition download_fails :: env where
  "download_fails =
     services photos (\<lambda>b. Data ()) one_png (\<lambda>b p. ErrorReturned ''Object not found'')
       (\<lambda>b p. Data ())"

text \<open>The request that creates the bucket fails; everything else works.\<close>

definition creation_fails :: env where
  "creation_fails =
     services photos (\<lambda>b. ErrorReturned ''new row violates row-level security policy'') one_png
       (\<lambda>b p. Data ''png-bytes'') (\<lambda>b p. Data ())"

text \<open>An archive with the bucket \<^verbatim>\<open>photos\<close>, a file in it and a file at the root.\<close>

definition photos_zip :: File where
  "photos_zip =
     File ''export.zip'' 2048
       (Inr [(''readme.txt'', \<lparr>dir = False, async = Inr ''hello''\<rparr>),
             (''photos/'', \<lparr>dir = True, async = Inr []\<rparr>),
             (''photos/a.png'', \<lparr>dir = False, async = Inr ''png-bytes''\<rparr>),
             (''photos/b.png'', \<lparr>dir = False, async = Inl ''Corrupted zip: CRC32 mismatch''\<rparr>)])"

text \<open>An archive with the bucket \<^verbatim>\<open>photos\<close> and one file in it.\<close>

definition single_zip :: File where
  "single_zip =
     File ''single.zip'' 1024
       (Inr [(''photos/a.png'', \<lparr>dir = False, async = Inr ''png-bytes''\<rparr>)])"

text \<open>An archive that cannot be read, and one with no file below a folder.\<close>

definition corrupt_zip :: File where
  "corrupt_zip = File ''broken.zip'' 12 (Inl ''Can't find end of central directory'')"

definition flat_zip :: File where
  "flat_zip = File ''flat.zip'' 100 (Inr [(''readme.txt'', \<lparr>dir = False, async = Inr ''hello''\<rparr>)])"

text \<open>A destination without buckets where every request works.\<close>

definition empty_destination :: env where
  "empty_destination =
     services (Data []) (\<lambda>b. Data ()) (\<lambda>b. Files []) (\<lambda>b p. Data []) (\<lambda>b p. Data ())"

text \<open>
  A destination whose bucket listing returns an error and which answers the creation of
  a bucket with ``already exists''.
\<close>

definition bucket_exists :: env where
  "bucket_exists =
     services (ErrorReturned ''Unauthorized'') (\<lambda>b. ErrorReturned ''The resource already exists'')
       (\<lambda>b. Files []) (\<lambda>b p. Data []) (\<lambda>b p. Data ())"

text \<open>
  A source with the bucket \<^verbatim>\<open>photos\<close> holding the file \<^verbatim>\<open>a.png\<close> and the folder
  \<^verbatim>\<open>thumbs\<close> with the file \<^verbatim>\<open>b.png\<close>; the download of \<^verbatim>\<open>a.png\<close> fails.
\<close>

definition png_and_folder :: "string \<Rightarrow> Listing" where
  "png_and_folder b =
     Files [FileObject ''a.png'' (Some ''image/png'') (Files []),
            FileObject ''thumbs'' None
              (Files [FileObject ''b.png'' (Some ''image/png'') (Files [])])]"

definition first_download_fails :: env where
  "first_download_fails =
     services photos (\<lambda>b. Data ()) png_and_folder
       (\<lambda>b p. if p = ''a.png'' then ErrorReturned ''Object not found'' else Data ''png-bytes'')
       (\<lambda>b p. Data ())"

text \<open>
  A destination without buckets where every request works, and a user who clicks the tab
  of the live migration while the second file of the archive is decompressed.
\<close>

definition tab_clicked :: env where
  "tab_clicked =
     empty_destination
       \<lparr>interruptions :=
          (\<lambda>h. if h \<noteq> [] \<and> last h = Call (Async ''photos'' ''b.png'') False
               then [TabClick live_tab] else [])\<rparr>"

text \<open>
  The same services, and the preview of an archive that cannot be read comes to its end
  while the live run waits for the list of the buckets of the source.
\<close>

definition preview_pending :: env where
  "preview_pending =
     first_download_fails
       \<lparr>interruptions :=
          (\<lambda>h. if h \<noteq> [] \<and>
                  last h = Call (ListBuckets (Client ''https://old.supabase.co'' ''old-key'')) True
               then [PreviewEnds corrupt_zip] else [])\<rparr>"

section \<open>The content-type resolver: results\<close>

lemma split_not_Nil: "split c s \<noteq> []"
  by (induction s) (auto split: list.splits)

lemma lower_char_dot: "(lower_char x = CHR ''.'') = (x = CHR ''.'')"
  by (auto simp: lower_char_def split: if_splits)

lemma split_lower:
  "split (CHR ''.'') (map lower_char s) = map (map lower_char) (split (CHR ''.'') s)"
  by (induction s) (auto simp: lower_char_dot split_not_Nil split: list.splits)

lemma extension_lower: "extension s = last (split (CHR ''.'') (toLowerCase s))"
  by (simp add: extension_def pop_def split_not_Nil toLowerCase_def split_lower last_map)

text \<open>The lookup does not see the case of the letters of the name.\<close>

lemma getMimeType_case_insensitive:
  "toLowerCase s = toLowerCase t \<Longrightarrow> getMimeType s = getMimeType t"
  by (simp add: getMimeType_def extension_lower)

text \<open>The three names the specification lists resolve as it says.\<close>

lemma getMimeType_examples:
  "getMimeType ''a.b.JPG'' = JString ''image/jpeg''"
  "getMimeType ''noext'' = JString ''application/octet-stream''"
  "getMimeType ''x.unknownext'' = JString ''application/octet-stream''"
  by (simp_all add: getMimeType_def extension_def pop_def toLowerCase_def lower_char_def
      mimeTypes_def object_prototype_properties_def)

text \<open>
  Whatever comes after the last dot, when it is neither a key of the table nor the name
  of an inherited property, resolves to the default.
\<close>

lemma getMimeType_unknown:
  "extension s \<notin> fst ` set mimeTypes \<Longrightarrow> extension s \<notin> set object_prototype_properties \<Longrightarrow>
   getMimeType s = JString ''application/octet-stream''"
  by (force simp: getMimeType_def Let_def split: option.splits dest!: map_of_SomeD)

text \<open>
  An extension that names an inherited property resolves to that property, which is not a
  string.
\<close>

lemma getMimeType_constructor: "getMimeType ''x.constructor'' = JInherited ''constructor''"
  by (simp add: getMimeType_def extension_def pop_def toLowerCase_def lower_char_def
      mimeTypes_def object_prototype_properties_def)

text \<open>
  C5: the resolver returns a MIME string for every path, does not see the case of the
  extension, and returns \<^verbatim>\<open>application/octet-stream\<close> for an unknown or a missing
  extension. The code departs from this on a name without a dot that is itself a key of
  the table: \<^verbatim>\<open>split('.').pop()\<close> hands back the whole name, so the name \<^verbatim>\<open>png\<close>, which has no
  extension, resolves to \<^verbatim>\<open>image/png\<close>.
\<close>

theorem getMimeType_name_without_dot:
  "getMimeType ''png'' = JString ''image/png''"
  by (simp add: getMimeType_def extension_def pop_def toLowerCase_def lower_char_def
      mimeTypes_def)

section \<open>The archive layout inferencer: results\<close>

lemma join_not_Nil: "xs \<noteq> [] \<Longrightarrow> \<forall>x\<in>set xs. x \<noteq> [] \<Longrightarrow> join sep xs \<noteq> []"
  by (induction sep xs rule: join.induct) auto

lemma parts_not_Nil: "x \<in> set (parts p) \<Longrightarrow> x \<noteq> []"
  by (auto simp: parts_def)

lemma set_rootCandidates:
  "set (rootCandidates es acc) =
   set acc \<union> {hd (parts p) |p f. (p, f) \<in> set es \<and> \<not> dir f \<and> parts p \<noteq> []}"
  by (induction es acc rule: rootCandidates.induct) (auto simp: set_add_def)

text \<open>With a root folder, every file of the archive lies under it.\<close>

lemma rootFolder_first_segment:
  assumes "rootFolder es = Some r" "(p, f) \<in> set es" "\<not> dir f" "parts p \<noteq> []"
  shows "hd (parts p) = r"
proof -
  from assms(1) have "rootCandidates es [] = [r]"
    by (auto simp: rootFolder_def split: list.splits if_splits)
  then have "set (rootCandidates es []) = {r}" by simp
  with assms(2-4) show ?thesis
    by (auto simp: set_rootCandidates)
qed

text \<open>An entry is placed exactly when it is a file with enough segments.\<close>

lemma place_Some_iff:
  assumes "root = rootFolder es" "entry \<in> set es"
  shows "(place root entry \<noteq> None) = kept root entry"
proof (cases entry)
  case (Pair p f)
  show ?thesis
  proof (cases "rootFolder es")
    case None
    with Pair assms show ?thesis by (auto simp: place_def kept_def Let_def)
  next
    case (Some r)
    have "dir f \<or> parts p = [] \<or> hd (parts p) = r"
      using rootFolder_first_segment[OF Some, of p f] assms(2) Pair by auto
    with Pair Some assms show ?thesis
      by (cases "parts p") (auto simp: place_def kept_def Let_def)
  qed
qed

lemma place_path:
  assumes "place root (p, f) = Some (b, fi)"
  shows "path fi \<noteq> [] \<and> file' fi = f \<and> \<not> dir f \<and> b \<noteq> []"
proof -
  have ne: "\<forall>x\<in>set (drop k (parts p)). x \<noteq> []" for k
    by (auto dest!: in_set_dropD parts_not_Nil)
  have nth: "parts p ! Suc 0 \<noteq> []" if "3 \<le> length (parts p)"
    using that parts_not_Nil[of "parts p ! Suc 0" p] by simp
  have hd: "hd (parts p) \<noteq> []" if "2 \<le> length (parts p)"
    using that parts_not_Nil[of "hd (parts p)" p] by (cases "parts p") auto
  from assms show ?thesis
    by (auto simp: place_def Let_def join_not_Nil ne nth hd split: if_splits)
qed

lemma set_update_cases:
  "kv \<in> set (AList.update k v al) \<Longrightarrow> kv = (k, v) \<or> kv \<in> set al"
  by (induction al) (auto split: if_splits)

lemma push_file_set:
  assumes "push_file bf b fi = Inr bf'" "(b', fs') \<in> set bf'" "x \<in> set fs'"
  shows "x = fi \<or> (\<exists>fs. (b', fs) \<in> set bf \<and> x \<in> set fs)"
proof (cases "map_of bf b")
  case None
  with assms show ?thesis
    by (auto simp: push_file_def split: if_splits)
next
  case (Some fs)
  with assms(1) have bf': "bf' = AList.update b (fs @ [fi]) bf"
    by (simp add: push_file_def)
  from Some have mem: "(b, fs) \<in> set bf" by (rule map_of_SomeD)
  from assms(2) bf' have "(b', fs') = (b, fs @ [fi]) \<or> (b', fs') \<in> set bf"
    by (auto dest: set_update_cases)
  with assms(3) mem show ?thesis by auto
qed

text \<open>Every file of the result was placed there from an entry of the archive.\<close>

lemma parse_entries_files:
  assumes "parse_entries root es acc = Inr bf" "(b, fs) \<in> set bf" "fi \<in> set fs"
  shows "(\<exists>fs0. (b, fs0) \<in> set acc \<and> fi \<in> set fs0) \<or>
         (\<exists>entry\<in>set es. \<exists>b'. place root entry = Some (b', fi))"
  using assms
proof (induction es arbitrary: acc)
  case Nil
  then show ?case by auto
next
  case (Cons e es)
  show ?case
  proof (cases "place root e")
    case None
    with Cons.prems Cons.IH[of acc] show ?thesis by auto
  next
    case (Some placed)
    obtain b1 fi1 where placed: "placed = (b1, fi1)" by (cases placed)
    from Cons.prems Some placed obtain acc' where
      push: "push_file acc b1 fi1 = Inr acc'" and rest: "parse_entries root es acc' = Inr bf"
      by (auto split: sum.splits)
    from Cons.IH[OF rest Cons.prems(2,3)] show ?thesis
    proof
      assume "\<exists>fs0. (b, fs0) \<in> set acc' \<and> fi \<in> set fs0"
      then obtain fs0 where "(b, fs0) \<in> set acc'" "fi \<in> set fs0" by blast
      from push_file_set[OF push this] Some placed show ?thesis by auto
    next
      assume "\<exists>entry\<in>set es. \<exists>b'. place root entry = Some (b', fi)"
      then show ?thesis by auto
    qed
  qed
qed

text \<open>The entries that are not placed have no effect, whatever the others do.\<close>

lemma parse_entries_filter:
  "parse_entries root (filter (\<lambda>entry. place root entry \<noteq> None) es) acc =
   parse_entries root es acc"
  by (induction es arbitrary: acc) (auto split: option.splits sum.splits)

lemma parse_entries_kept:
  "parseZipStructure_value es = parse_entries (rootFolder es) (filter (kept (rootFolder es)) es) []"
proof -
  have "filter (kept (rootFolder es)) es = filter (\<lambda>entry. place (rootFolder es) entry \<noteq> None) es"
    by (rule filter_cong[OF refl]) (simp only: place_Some_iff[OF refl])
  then show ?thesis
    unfolding parseZipStructure_value_def by (simp only: parse_entries_filter)
qed

text \<open>The two archives of the specification are read as it says.\<close>

lemma parseZipStructure_examples:
  "parseZipStructure_value
     [(''proj123456789012345678/photos/a.png'', f1), (''proj123456789012345678/docs/b.pdf'', f2)] =
   (if dir f1 \<and> dir f2 then Inr []
    else if dir f1 then Inr [(''docs'', [\<lparr>path = ''b.pdf'', file' = f2\<rparr>])]
    else if dir f2 then Inr [(''photos'', [\<lparr>path = ''a.png'', file' = f1\<rparr>])]
    else Inr [(''photos'', [\<lparr>path = ''a.png'', file' = f1\<rparr>]),
              (''docs'', [\<lparr>path = ''b.pdf'', file' = f2\<rparr>])])"
  "parseZipStructure_value [(''photos/a.png'', f1), (''docs/b.pdf'', f2)] =
   (if dir f1 \<and> dir f2 then Inr []
    else if dir f1 then Inr [(''docs'', [\<lparr>path = ''b.pdf'', file' = f2\<rparr>])]
    else if dir f2 then Inr [(''photos'', [\<lparr>path = ''a.png'', file' = f1\<rparr>])]
    else Inr [(''photos'', [\<lparr>path = ''a.png'', file' = f1\<rparr>]),
              (''docs'', [\<lparr>path = ''b.pdf'', file' = f2\<rparr>])])"
  by (simp_all add: parseZipStructure_value_def rootFolder_def set_add_def parts_def
      looks_like_project_id_def place_def push_file_def object_prototype_properties_def)

lemma files_of_push:
  assumes "b \<notin> set object_prototype_properties"
  shows "\<exists>bf'. push_file bf b fi = Inr bf' \<and>
           (\<forall>b'. files_of bf' b' = files_of bf b' @ (if b' = b then [fi] else []))"
proof (cases "map_of bf b")
  case None
  with assms show ?thesis
    by (auto simp: push_file_def files_of_def map_add_def split: option.splits)
next
  case (Some fs)
  then show ?thesis
    by (auto simp: push_file_def files_of_def update_conv' split: option.splits)
qed

lemma files_for_Cons:
  "files_for root b (entry # es) =
     (case placed_in root b entry of None \<Rightarrow> [] | Some fi \<Rightarrow> [fi]) @ files_for root b es"
  by (simp add: files_for_def List.map_filter_simps split: option.splits)

lemma parse_entries_plain:
  "plain_names root es \<Longrightarrow>
   \<exists>bf. parse_entries root es acc = Inr bf \<and>
        (\<forall>b. files_of bf b = files_of acc b @ files_for root b es)"
proof (induction es arbitrary: acc)
  case Nil
  then show ?case by (simp add: files_for_def List.map_filter_simps)
next
  case (Cons entry es)
  from Cons.prems have rest: "plain_names root es"
    by (simp add: plain_names_def)
  show ?case
  proof (cases "place root entry")
    case None
    with Cons.IH[OF rest, of acc] show ?thesis
      by (simp add: files_for_Cons placed_in_def)
  next
    case (Some placed)
    obtain b1 fi1 where placed: "placed = (b1, fi1)" by (cases placed)
    with Some Cons.prems have "b1 \<notin> set object_prototype_properties"
      by (simp add: plain_names_def)
    from files_of_push[OF this, of acc fi1] obtain acc' where
      push: "push_file acc b1 fi1 = Inr acc'"
      and files: "\<forall>b'. files_of acc' b' = files_of acc b' @ (if b' = b1 then [fi1] else [])"
      by blast
    from Cons.IH[OF rest, of acc'] obtain bf where
      "parse_entries root es acc' = Inr bf"
      "\<forall>b. files_of bf b = files_of acc' b @ files_for root b es"
      by blast
    with Some placed push files show ?thesis
      by (simp add: files_for_Cons placed_in_def)
  qed
qed

text \<open>
  When no bucket is named like an inherited property, the inferencer returns, and under
  every name it holds the files that the entries place there, in their order.
\<close>

lemma parseZipStructure_plain:
  assumes "plain_names (rootFolder entries) entries"
  shows "\<exists>bucketFiles. parseZipStructure_value entries = Inr bucketFiles \<and>
           (\<forall>b. files_of bucketFiles b = files_for (rootFolder entries) b entries)"
  using parse_entries_plain[OF assms, of "[]"]
  by (simp add: parseZipStructure_value_def files_of_def)

text \<open>Where an entry is placed, segment by segment.\<close>

lemma place_root:
  "\<not> dir f \<Longrightarrow> parts p = r # b # x # xs \<Longrightarrow>
   place (Some r) (p, f) = Some (b, \<lparr>path = join ''/'' (x # xs), file' = f\<rparr>)"
  by (simp add: place_def)

lemma place_direct:
  "\<not> dir f \<Longrightarrow> parts p = b # x # xs \<Longrightarrow>
   place None (p, f) = Some (b, \<lparr>path = join ''/'' (x # xs), file' = f\<rparr>)"
  by (simp add: place_def)

text \<open>
  C2: with one first segment that looks like a project identifier the second segment is
  the bucket and the rest the path, otherwise the first segment is the bucket and the rest
  the path. The code does so as long as no bucket is named like a property every object
  inherits (lemma \<open>parseZipStructure_plain\<close>), and departs from it on such a name: for the
  archive with the one file \<^verbatim>\<open>constructor/a.png\<close> the lookup \<^verbatim>\<open>bucketFiles['constructor']\<close>
  is truthy, no list is made for the bucket, and the \<^verbatim>\<open>push\<close> throws.
\<close>

theorem parseZipStructure_inherited_bucket_name:
  "parseZipStructure_value [(''constructor/a.png'', \<lparr>dir = False, async = Inr ''data''\<rparr>)] =
   Inl push_is_not_a_function"
  by (simp add: parseZipStructure_value_def rootFolder_def set_add_def parts_def
      looks_like_project_id_def place_def push_file_def object_prototype_properties_def)

text \<open>
  C7: every file in the result of the inferencer has a non-empty relative path and comes
  from an entry that is not a directory and has at least two segments, three under a root
  folder; and the result is the one for the archive without its directory markers and
  without its entries of fewer segments, so that those are skipped and raise nothing.
\<close>

theorem inferred_paths_not_empty:
  assumes "parseZipStructure_value entries = Inr bucketFiles"
    and "(bucketName, files) \<in> set bucketFiles"
    and "fileInfo \<in> set files"
  shows "path fileInfo \<noteq> [] \<and>
         (\<exists>p. (p, file' fileInfo) \<in> set entries \<and> kept (rootFolder entries) (p, file' fileInfo)) \<and>
         parseZipStructure_value entries =
           parse_entries (rootFolder entries) (filter (kept (rootFolder entries)) entries) []"
proof -
  from parse_entries_files[OF assms[unfolded parseZipStructure_value_def]]
  obtain entry b' where entry: "entry \<in> set entries"
    and placed: "place (rootFolder entries) entry = Some (b', fileInfo)"
    by auto
  obtain p f where pf: "entry = (p, f)" by (cases entry)
  from place_path[OF placed[unfolded pf]] have "path fileInfo \<noteq> []" "file' fileInfo = f"
    by auto
  moreover from place_Some_iff[OF refl entry] placed have "kept (rootFolder entries) entry"
    by simp
  ultimately show ?thesis
    using entry pf parse_entries_kept[of entries] by auto
qed

theorem inferred_paths_not_empty_witness:
  "parseZipStructure_value
     [(''abcdefghij0123456789/readme.txt'', \<lparr>dir = False, async = Inr ''r''\<rparr>),
      (''abcdefghij0123456789/photos/'', \<lparr>dir = True, async = Inr []\<rparr>),
      (''abcdefghij0123456789/photos/a.png'', \<lparr>dir = False, async = Inr ''a''\<rparr>)] =
   Inr [(''photos'', [\<lparr>path = ''a.png'', file' = \<lparr>dir = False, async = Inr ''a''\<rparr>\<rparr>])] \<and>
   path \<lparr>path = ''a.png'', file' = \<lparr>dir = False, async = Inr ''a''\<rparr>\<rparr> \<noteq> []"
  using inferred_paths_not_empty
    [of "[(''abcdefghij0123456789/readme.txt'', \<lparr>dir = False, async = Inr ''r''\<rparr>),
          (''abcdefghij0123456789/photos/'', \<lparr>dir = True, async = Inr []\<rparr>),
          (''abcdefghij0123456789/photos/a.png'', \<lparr>dir = False, async = Inr ''a''\<rparr>)]"
        "[(''photos'', [\<lparr>path = ''a.png'', file' = \<lparr>dir = False, async = Inr ''a''\<rparr>\<rparr>])]"
        "''photos''"
        "[\<lparr>path = ''a.png'', file' = \<lparr>dir = False, async = Inr ''a''\<rparr>\<rparr>]"
        "\<lparr>path = ''a.png'', file' = \<lparr>dir = False, async = Inr ''a''\<rparr>\<rparr>"]
  by (simp add: parseZipStructure_value_def rootFolder_def set_add_def parts_def
      looks_like_project_id_def place_def push_file_def object_prototype_properties_def)

section \<open>The state of the page: how the parts of a run change it\<close>

lemma addLog_fields [simp]:
  "trace (addLog e m t s) = trace s @ [Logged t m]"
  "progress (addLog e m t s) = progress s"
  "totalItems (addLog e m t s) = totalItems s"
  "error (addLog e m t s) = error s"
  "success (addLog e m t s) = success s"
  "isProcessing (addLog e m t s) = isProcessing s"
  "uploadedZip (addLog e m t s) = uploadedZip s"
  "oldProjectUrl (addLog e m t s) = oldProjectUrl s"
  "oldProjectKey (addLog e m t s) = oldProjectKey s"
  "newProjectUrl (addLog e m t s) = newProjectUrl s"
  "newProjectKey (addLog e m t s) = newProjectKey s"
  "logs (addLog e m t s) =
     logs s @ [\<lparr>message = m, type = t, timestamp = toLocaleTimeString e (length (logs s))\<rparr>]"
  by (simp_all add: addLog_def)

lemma called_fields [simp]:
  "trace (called r ok s) = trace s @ [Call r ok]"
  "progress (called r ok s) = progress s"
  "totalItems (called r ok s) = totalItems s"
  "error (called r ok s) = error s"
  "success (called r ok s) = success s"
  "isProcessing (called r ok s) = isProcessing s"
  "uploadedZip (called r ok s) = uploadedZip s"
  "oldProjectUrl (called r ok s) = oldProjectUrl s"
  "oldProjectKey (called r ok s) = oldProjectKey s"
  "newProjectUrl (called r ok s) = newProjectUrl s"
  "newProjectKey (called r ok s) = newProjectKey s"
  "logs (called r ok s) = logs s"
  by (simp_all add: called_def)

lemma caught_fields [simp]:
  "trace (caught site m s) = trace s @ [Caught site m]"
  "progress (caught site m s) = progress s"
  "totalItems (caught site m s) = totalItems s"
  "error (caught site m s) = error s"
  "success (caught site m s) = success s"
  "isProcessing (caught site m s) = isProcessing s"
  "uploadedZip (caught site m s) = uploadedZip s"
  "logs (caught site m s) = logs s"
  by (simp_all add: caught_def)

lemma set_progress_fields [simp]:
  "trace (set_progress n s) = trace s @ [Counters n (totalItems s)]"
  "progress (set_progress n s) = n"
  "totalItems (set_progress n s) = totalItems s"
  "error (set_progress n s) = error s"
  "success (set_progress n s) = success s"
  "isProcessing (set_progress n s) = isProcessing s"
  "uploadedZip (set_progress n s) = uploadedZip s"
  "logs (set_progress n s) = logs s"
  by (simp_all add: set_progress_def)

lemma set_totalItems_fields [simp]:
  "trace (set_totalItems n s) = trace s @ [Counters (progress s) n]"
  "progress (set_totalItems n s) = progress s"
  "totalItems (set_totalItems n s) = n"
  "error (set_totalItems n s) = error s"
  "success (set_totalItems n s) = success s"
  "isProcessing (set_totalItems n s) = isProcessing s"
  "uploadedZip (set_totalItems n s) = uploadedZip s"
  "logs (set_totalItems n s) = logs s"
  by (simp_all add: set_totalItems_def)

lemma clearLogs_fields [simp]:
  "trace (clearLogs s) = trace s @ [Counters 0 (totalItems s), Counters 0 0]"
  "progress (clearLogs s) = 0"
  "totalItems (clearLogs s) = 0"
  "error (clearLogs s) = []"
  "success (clearLogs s) = []"
  "logs (clearLogs s) = []"
  "isProcessing (clearLogs s) = isProcessing s"
  "uploadedZip (clearLogs s) = uploadedZip s"
  "oldProjectUrl (clearLogs s) = oldProjectUrl s"
  "oldProjectKey (clearLogs s) = oldProjectKey s"
  "newProjectUrl (clearLogs s) = newProjectUrl s"
  "newProjectKey (clearLogs s) = newProjectKey s"
  by (simp_all add: clearLogs_def)

lemma setActiveTab_fields [simp]:
  "trace (setActiveTab tab s) = trace s @ [Click tab, Counters 0 (totalItems s), Counters 0 0]"
  "progress (setActiveTab tab s) = 0"
  "totalItems (setActiveTab tab s) = 0"
  "error (setActiveTab tab s) = []"
  "success (setActiveTab tab s) = []"
  "logs (setActiveTab tab s) = []"
  "isProcessing (setActiveTab tab s) = isProcessing s"
  "uploadedZip (setActiveTab tab s) = uploadedZip s"
  "oldProjectUrl (setActiveTab tab s) = oldProjectUrl s"
  "oldProjectKey (setActiveTab tab s) = oldProjectKey s"
  "newProjectUrl (setActiveTab tab s) = newProjectUrl s"
  "newProjectKey (setActiveTab tab s) = newProjectKey s"
  by (simp_all add: setActiveTab_def)

lemma migration_failed_fields [simp]:
  "trace (migration_failed e site m s) =
     trace s @ [Caught site m, Logged Error (''Migration failed: '' @ m)]"
  "progress (migration_failed e site m s) = progress s"
  "totalItems (migration_failed e site m s) = totalItems s"
  "error (migration_failed e site m s) = m"
  "success (migration_failed e site m s) = success s"
  "isProcessing (migration_failed e site m s) = isProcessing s"
  "logs (migration_failed e site m s) =
     logs s @ [\<lparr>message = ''Migration failed: '' @ m, type = Error,
                timestamp = toLocaleTimeString e (length (logs s))\<rparr>]"
  by (simp_all add: migration_failed_def)

subsection \<open>Waiting for an answer\<close>

lemma preview_ends_fields [simp]:
  "progress (preview_ends e f s) = progress s"
  "totalItems (preview_ends e f s) = totalItems s"
  "error (preview_ends e f s) = error s"
  "success (preview_ends e f s) = success s"
  "isProcessing (preview_ends e f s) = isProcessing s"
  "uploadedZip (preview_ends e f s) = uploadedZip s"
  "oldProjectUrl (preview_ends e f s) = oldProjectUrl s"
  "oldProjectKey (preview_ends e f s) = oldProjectKey s"
  "newProjectUrl (preview_ends e f s) = newProjectUrl s"
  "newProjectKey (preview_ends e f s) = newProjectKey s"
  by (simp_all add: preview_ends_def detect_loaded_def caught_def Let_def split: sum.splits)

text \<open>The end of a preview appends one entry to the log.\<close>

lemma preview_ends_log:
  "\<exists>pre ty msg.
     trace (preview_ends e f s) = trace s @ pre @ [Logged ty msg] \<and>
     (pre = [] \<or> (\<exists>m. pre = [Caught Preview m])) \<and>
     logs (preview_ends e f s) =
       logs s @ [\<lparr>message = msg, type = ty, timestamp = toLocaleTimeString e (length (logs s))\<rparr>]"
  by (simp add: preview_ends_def detect_loaded_def Let_def split: sum.splits)

lemma meanwhile_preview_fields [simp]:
  "progress (meanwhile (preview_ends e f) s) = progress s"
  "totalItems (meanwhile (preview_ends e f) s) = totalItems s"
  "error (meanwhile (preview_ends e f) s) = error s"
  "success (meanwhile (preview_ends e f) s) = success s"
  "isProcessing (meanwhile (preview_ends e f) s) = isProcessing s"
  "uploadedZip (meanwhile (preview_ends e f) s) = uploadedZip s"
  "oldProjectUrl (meanwhile (preview_ends e f) s) = oldProjectUrl s"
  "oldProjectKey (meanwhile (preview_ends e f) s) = oldProjectKey s"
  "newProjectUrl (meanwhile (preview_ends e f) s) = newProjectUrl s"
  "newProjectKey (meanwhile (preview_ends e f) s) = newProjectKey s"
  by (simp_all add: meanwhile_def Let_def)

lemma meanwhile_preview_log:
  "\<exists>pre ty msg.
     trace (meanwhile (preview_ends e f) s) = trace s @ pre @ [Meanwhile (Logged ty msg)] \<and>
     (pre = [] \<or> (\<exists>m. pre = [Meanwhile (Caught Preview m)])) \<and>
     logs (meanwhile (preview_ends e f) s) =
       logs s @ [\<lparr>message = msg, type = ty, timestamp = toLocaleTimeString e (length (logs s))\<rparr>]"
  using preview_ends_log[of e f "s\<lparr>trace := []\<rparr>"]
  by (auto simp: meanwhile_def Let_def)

text \<open>What happens meanwhile leaves the fields of the form and the processing flag alone.\<close>

lemma interrupt_fields [simp]:
  "isProcessing (interrupt e i s) = isProcessing s"
  "uploadedZip (interrupt e i s) = uploadedZip s"
  "oldProjectUrl (interrupt e i s) = oldProjectUrl s"
  "oldProjectKey (interrupt e i s) = oldProjectKey s"
  "newProjectUrl (interrupt e i s) = newProjectUrl s"
  "newProjectKey (interrupt e i s) = newProjectKey s"
  by (cases i; simp)+

lemma interrupt_clean:
  "error s = [] \<Longrightarrow> error (interrupt e i s) = []"
  "success s = [] \<Longrightarrow> success (interrupt e i s) = []"
  "progress s = 0 \<Longrightarrow> progress (interrupt e i s) = 0"
  "totalItems s = 0 \<Longrightarrow> totalItems (interrupt e i s) = 0"
  by (cases i; simp)+

lemma interrupt_aside: "\<exists>new. trace (interrupt e i s) = trace s @ new \<and> list_all is_aside new"
proof (cases i)
  case (TabClick tab)
  then show ?thesis by simp
next
  case (PreviewEnds f)
  with meanwhile_preview_log[of e f s] show ?thesis by auto
qed

lemma interrupted_fields [simp]:
  "isProcessing (interrupted e is s) = isProcessing s"
  "uploadedZip (interrupted e is s) = uploadedZip s"
  "oldProjectUrl (interrupted e is s) = oldProjectUrl s"
  "oldProjectKey (interrupted e is s) = oldProjectKey s"
  "newProjectUrl (interrupted e is s) = newProjectUrl s"
  "newProjectKey (interrupted e is s) = newProjectKey s"
  by (induction "is" arbitrary: s; simp)+

lemma interrupted_clean:
  "error s = [] \<Longrightarrow> error (interrupted e is s) = []"
  "success s = [] \<Longrightarrow> success (interrupted e is s) = []"
  "progress s = 0 \<Longrightarrow> progress (interrupted e is s) = 0"
  "totalItems s = 0 \<Longrightarrow> totalItems (interrupted e is s) = 0"
  by (induction "is" arbitrary: s; simp add: interrupt_clean)+

lemma interrupted_aside:
  "\<exists>new. trace (interrupted e is s) = trace s @ new \<and> list_all is_aside new"
proof (induction "is" arbitrary: s)
  case Nil
  show ?case by simp
next
  case (Cons i "is")
  from interrupt_aside[of e i s] obtain new1 where
    n1: "trace (interrupt e i s) = trace s @ new1" "list_all is_aside new1" by auto
  from Cons[of "interrupt e i s"] obtain new2 where
    n2: "trace (interrupted e is (interrupt e i s)) = trace (interrupt e i s) @ new2"
      "list_all is_aside new2" by auto
  from n1 n2 show ?case by simp
qed

text \<open>
  The page after a request: the request is in the trace, followed by what happened
  meanwhile.
\<close>

lemma awaited_grows:
  "\<exists>new. trace (awaited e r ok s) = trace s @ Call r ok # new \<and> list_all is_aside new"
  using interrupted_aside[of e "interruptions e (trace s @ [Call r ok])" "called r ok s"]
  by (auto simp: awaited_def Let_def)

lemma awaited_fields [simp]:
  "isProcessing (awaited e r ok s) = isProcessing s"
  "uploadedZip (awaited e r ok s) = uploadedZip s"
  "oldProjectUrl (awaited e r ok s) = oldProjectUrl s"
  "oldProjectKey (awaited e r ok s) = oldProjectKey s"
  "newProjectUrl (awaited e r ok s) = newProjectUrl s"
  "newProjectKey (awaited e r ok s) = newProjectKey s"
  by (simp_all add: awaited_def Let_def)

lemma awaited_clean:
  "error s = [] \<Longrightarrow> error (awaited e r ok s) = []"
  "success s = [] \<Longrightarrow> success (awaited e r ok s) = []"
  "progress s = 0 \<Longrightarrow> progress (awaited e r ok s) = 0"
  "totalItems s = 0 \<Longrightarrow> totalItems (awaited e r ok s) = 0"
  by (simp_all add: awaited_def Let_def interrupted_clean)

text \<open>What happens meanwhile adds nothing to what a filter keeps, when the filter keeps none of it.\<close>

lemma filter_aside:
  assumes "list_all is_aside new" "\<And>tab. \<not> P (Click tab)" "\<And>p t. \<not> P (Counters p t)"
    "\<And>ev. \<not> P (Meanwhile ev)"
  shows "filter P new = []"
proof -
  have "\<not> P ev" if "is_aside ev" for ev
    using that assms(2-4) by (cases ev) auto
  with assms(1) show ?thesis
    by (auto simp: filter_empty_conv list_all_iff)
qed

lemma awaited_filter:
  assumes "\<And>tab. \<not> P (Click tab)" "\<And>p t. \<not> P (Counters p t)" "\<And>ev. \<not> P (Meanwhile ev)"
  shows "filter P (trace (awaited e r ok s)) =
         filter P (trace s) @ (if P (Call r ok) then [Call r ok] else [])"
proof -
  from awaited_grows[of e r ok s] obtain new where
    n: "trace (awaited e r ok s) = trace s @ Call r ok # new" "list_all is_aside new" by auto
  from filter_aside[OF n(2), of P] assms have "filter P new = []" by simp
  with n(1) show ?thesis by simp
qed

lemma awaited_list_ex:
  "list_ex Q (trace s) \<or> Q (Call r ok) \<Longrightarrow> list_ex Q (trace (awaited e r ok s))"
  using awaited_grows[of e r ok s] by auto

lemma list_ex_filter: "list_ex Q xs = (filter Q xs \<noteq> [])"
  by (induction xs) auto

lemma awaited_list_ex_simps [simp]:
  "list_ex is_transfer (trace (awaited e r ok s)) =
     (list_ex is_transfer (trace s) \<or> is_transfer (Call r ok))"
  "list_ex is_write (trace (awaited e r ok s)) =
     (list_ex is_write (trace s) \<or> is_write (Call r ok))"
  "list_ex is_run_catch (trace (awaited e r ok s)) = list_ex is_run_catch (trace s)"
  "list_ex is_creation_refusal (trace (awaited e r ok s)) =
     list_ex is_creation_refusal (trace s)"
  "list_ex creates_public_bucket (trace (awaited e r ok s)) =
     (list_ex creates_public_bucket (trace s) \<or> creates_public_bucket (Call r ok))"
  by (simp_all add: list_ex_filter awaited_filter)

subsection \<open>Steps\<close>

lemma step_refl [simp]: "step K s s"
  by (simp add: step_def)

lemma step_trans: "step K s s' \<Longrightarrow> step K s' s'' \<Longrightarrow> step K s s''"
  by (auto simp: step_def)

lemma step_addLog: "step K s s' \<Longrightarrow> K (Logged t m) \<Longrightarrow> step K s (addLog e m t s')"
  by (auto simp: step_def)

lemma step_called: "step K s s' \<Longrightarrow> K (Call r ok) \<Longrightarrow> step K s (called r ok s')"
  by (auto simp: step_def)

lemma step_caught: "step K s s' \<Longrightarrow> K (Caught site m) \<Longrightarrow> step K s (caught site m s')"
  by (auto simp: step_def)

lemma step_set_progress:
  "step K s s' \<Longrightarrow> K (Counters n (totalItems s')) \<Longrightarrow> step K s (set_progress n s')"
  by (auto simp: step_def)

lemma step_set_totalItems:
  "step K s s' \<Longrightarrow> K (Counters (progress s') n) \<Longrightarrow> step K s (set_totalItems n s')"
  by (auto simp: step_def)

lemma step_awaited:
  assumes "step K s s'" "K (Call r ok)" "\<And>tab. K (Click tab)" "\<And>p t. K (Counters p t)"
    "\<And>ev. K (Meanwhile ev)"
  shows "step K s (awaited e r ok s')"
proof -
  from awaited_grows[of e r ok s'] obtain new where
    n: "trace (awaited e r ok s') = trace s' @ Call r ok # new" "list_all is_aside new" by auto
  have "K ev" if "is_aside ev" for ev
    using that assms(3-5) by (cases ev) auto
  with n(2) have "list_all K new" by (auto simp: list_all_iff)
  with n(1) assms(1,2) show ?thesis
    by (auto simp: step_def awaited_clean)
qed

lemmas step_intros =
  step_addLog step_called step_caught step_set_progress step_set_totalItems step_awaited

lemma step_list_ex: "step K s s' \<Longrightarrow> list_ex Q (trace s) \<Longrightarrow> list_ex Q (trace s')"
  by (auto simp: step_def)

lemma zip_event_simps [simp]:
  "zip_event (Call (Async b p) ok)" "zip_event (Call (Upload c b p d m) ok)"
  "zip_event (Call (ListBuckets c) ok)" "zip_event (Call LoadAsync ok)"
  "zip_event (Call (CreateClient u k) ok)"
  by simp_all

lemma live_event_simps [simp]:
  "live_event (Call r ok)" "live_event (Counters p t)" "live_event (Logged ty msg)"
  "live_event (Click tab)" "live_event (Meanwhile ev)"
  "live_event (Caught LiveObject m)" "live_event (Caught LiveListing m)"
  "live_event (Caught LiveBucket m)"
  by (simp_all add: live_event_def)

subsection \<open>The loops of a run from an archive\<close>

lemma upload_file_step: "step zip_event s (upload_file e c b fi s)"
  by (auto simp: upload_file_def Let_def split: sum.splits option.splits intro!: step_intros)

lemma upload_files_step: "step zip_event s (upload_files e c b files s)"
proof (induction files arbitrary: s)
  case Nil
  show ?case by simp
next
  case (Cons fi files)
  from upload_file_step[of s e c b fi] Cons[of "upload_file e c b fi s"] show ?case
    by (auto intro: step_trans)
qed

lemma create_bucket_zip_step: "step zip_event s (snd (create_bucket_zip e c b s))"
  by (auto simp: create_bucket_zip_def Let_def split: option.splits intro!: step_intros)

lemma upload_bucket_step: "step zip_event s (upload_bucket e c ex b files s)"
proof -
  let ?s1 = "addLog e (CHR 0x0A # ''Processing bucket: '' @ b) Info s"
  have s1: "step zip_event s ?s1"
    by (auto intro!: step_intros)
  obtain go s2 where cr: "create_bucket_zip e c b ?s1 = (go, s2)"
    by (cases "create_bucket_zip e c b ?s1")
  from create_bucket_zip_step[of ?s1 e c b] cr s1
  have st: "step zip_event s s2" by (auto intro: step_trans)
  from upload_files_step[of s2 e c b files] st
  have "step zip_event s (upload_files e c b files s2)"
    by (auto intro: step_trans)
  moreover from upload_files_step[of ?s1 e c b files] s1
  have "step zip_event s (upload_files e c b files ?s1)"
    by (auto intro: step_trans)
  ultimately show ?thesis
    using st cr by (auto simp: upload_bucket_def Let_def split: bool.splits)
qed

lemma upload_buckets_step: "step zip_event s (upload_buckets e c ex bs s)"
proof (induction e c ex bs s rule: upload_buckets.induct)
  case (1 e newClient existingBucketNames s)
  show ?case by simp
next
  case (2 e newClient existingBucketNames bucketName files rest s)
  with upload_bucket_step[of s e newClient existingBucketNames bucketName files] show ?case
    by (auto intro: step_trans)
qed

lemma upload_files_keeps:
  "list_ex Q (trace s) \<Longrightarrow> list_ex Q (trace (upload_files e c b files s))"
  using upload_files_step[of s e c b files] by (rule step_list_ex)

lemma upload_buckets_keeps:
  "list_ex Q (trace s) \<Longrightarrow> list_ex Q (trace (upload_buckets e c ex bs s))"
  using upload_buckets_step[of s e c ex bs] by (rule step_list_ex)

subsection \<open>What the run did\<close>

lemma deeds_simps [simp]:
  "deeds (addLog e m t s) = deeds s @ [Logged t m]"
  "deeds (called r ok s) = deeds s @ [Call r ok]"
  "deeds (awaited e r ok s) = deeds s @ [Call r ok]"
  "deeds (caught site m s) = deeds s @ [Caught site m]"
  "deeds (set_progress n s) = deeds s"
  "deeds (set_totalItems n s) = deeds s"
  "deeds (migration_failed e site m s) =
     deeds s @ [Caught site m, Logged Error (''Migration failed: '' @ m)]"
  "deeds (clearLogs s) = deeds s"
  "deeds (s\<lparr>success := x\<rparr>) = deeds s"
  "deeds (s\<lparr>isProcessing := b\<rparr>) = deeds s"
  "deeds (s\<lparr>currentOperation := x\<rparr>) = deeds s"
  "deeds (s\<lparr>uploadedZip := z\<rparr>) = deeds s"
  "deeds (s\<lparr>detectedBuckets := bs\<rparr>) = deeds s"
  "deeds (s\<lparr>error := x\<rparr>) = deeds s"
  by (simp_all add: deeds_def awaited_filter)

lemma transfers_simps [simp]:
  "transfers (addLog e m t s) = transfers s"
  "transfers (called r ok s) = transfers s @ (if is_transfer (Call r ok) then [Call r ok] else [])"
  "transfers (awaited e r ok s) =
     transfers s @ (if is_transfer (Call r ok) then [Call r ok] else [])"
  "transfers (caught site m s) = transfers s"
  "transfers (set_progress n s) = transfers s"
  "transfers (set_totalItems n s) = transfers s"
  "transfers (migration_failed e site m s) = transfers s"
  "transfers (clearLogs s) = transfers s"
  "transfers (s\<lparr>success := x\<rparr>) = transfers s"
  "transfers (s\<lparr>isProcessing := b\<rparr>) = transfers s"
  "transfers (s\<lparr>currentOperation := x\<rparr>) = transfers s"
  by (simp_all add: transfers_def awaited_filter)

lemma requests_append [simp]: "requests (xs @ ys) = requests xs @ requests ys"
  by (induction xs rule: requests.induct) auto

lemma asked_simps [simp]:
  "asked (addLog e m t s) = asked s"
  "asked (called r ok s) = asked s @ [r]"
  "asked (awaited e r ok s) = asked s @ [r]"
  "asked (caught site m s) = asked s"
  "asked (set_progress n s) = asked s"
  "asked (set_totalItems n s) = asked s"
  "asked (migration_failed e site m s) = asked s"
  "asked (clearLogs s) = asked s"
  "asked (s\<lparr>success := x\<rparr>) = asked s"
  "asked (s\<lparr>isProcessing := b\<rparr>) = asked s"
  "asked (s\<lparr>currentOperation := x\<rparr>) = asked s"
proof -
  have aside: "requests new = []" if "list_all is_aside new" for new
    using that by (induction new rule: requests.induct) auto
  from awaited_grows[of e r ok s] aside show "asked (awaited e r ok s) = asked s @ [r]"
    by (auto simp: asked_def)
qed (simp_all add: asked_def)

subsection \<open>Failures and the log\<close>

lemma starts_with_self [simp]: "starts_with (m @ xs) m"
  by (induction m) auto

lemma starts_with_refl [simp]: "starts_with m m"
  using starts_with_self[of m "[]"] by simp

lemma str_includes_self [simp]: "str_includes m m"
  by (cases m) auto

lemma str_includes_append [simp]: "str_includes ys m \<Longrightarrow> str_includes (xs @ ys) m"
  by (induction xs) auto

lemma str_includes_cross [simp]: "str_includes ys m \<Longrightarrow> str_includes (cross @ ys) m"
  by (rule str_includes_append)

lemma surfaced_append:
  "surfaced excused xs \<Longrightarrow> surfaced excused ys \<Longrightarrow> surfaced excused (xs @ ys)"
  by (induction excused xs rule: surfaced.induct) auto

lemma since_click_append:
  "since_click (xs @ ys) =
     (if list_ex is_click ys then since_click ys else since_click xs @ ys)"
proof (cases "list_ex is_click ys")
  case True
  then obtain x where "x \<in> set (rev ys)" "\<not> \<not> is_click x"
    by (auto simp: list_ex_iff)
  then have "takeWhile (\<lambda>ev. \<not> is_click ev) (rev ys @ rev xs) =
             takeWhile (\<lambda>ev. \<not> is_click ev) (rev ys)"
    by (rule takeWhile_append1)
  with True show ?thesis by (simp add: since_click_def)
next
  case False
  then have "\<And>x. x \<in> set (rev ys) \<Longrightarrow> \<not> is_click x"
    by (auto simp: list_ex_iff)
  then have "takeWhile (\<lambda>ev. \<not> is_click ev) (rev ys @ rev xs) =
             rev ys @ takeWhile (\<lambda>ev. \<not> is_click ev) (rev xs)"
    by (rule takeWhile_append2)
  with False show ?thesis by (simp add: since_click_def)
qed

lemma since_click_Nil [simp]: "since_click [] = []"
  by (simp add: since_click_def)

lemma since_click_Cons [simp]:
  "since_click (ev # evs) =
     (if list_ex is_click evs then since_click evs
      else if is_click ev then evs else ev # evs)"
  using since_click_append[of "[ev]" evs] by (simp add: since_click_def)

lemma since_click_quiet: "\<not> list_ex is_click evs \<Longrightarrow> since_click evs = evs"
  using since_click_append[of "[]" evs] by simp

lemma logged_append [simp]: "logged (xs @ ys) = logged xs @ logged ys"
  by (induction xs rule: logged.induct) auto

lemma log_agrees_simps [simp]:
  "log_agrees (addLog e m t s) = log_agrees s"
  "log_agrees (called r ok s) = log_agrees s"
  "log_agrees (caught site m s) = log_agrees s"
  "log_agrees (set_progress n s) = log_agrees s"
  "log_agrees (set_totalItems n s) = log_agrees s"
  "log_agrees (migration_failed e site m s) = log_agrees s"
  "log_agrees (setActiveTab tab s)"
  "log_agrees (s\<lparr>success := x\<rparr>) = log_agrees s"
  "log_agrees (s\<lparr>isProcessing := b\<rparr>) = log_agrees s"
  "log_agrees (s\<lparr>currentOperation := x\<rparr>) = log_agrees s"
  "log_agrees (s\<lparr>uploadedZip := z\<rparr>) = log_agrees s"
  "log_agrees (s\<lparr>detectedBuckets := bs\<rparr>) = log_agrees s"
  "log_agrees (s\<lparr>error := x\<rparr>) = log_agrees s"
  by (simp_all add: log_agrees_def since_click_append migration_failed_def)

lemma log_agrees_interrupt: "log_agrees s \<Longrightarrow> log_agrees (interrupt e i s)"
proof (cases i)
  case (TabClick tab)
  then show ?thesis by simp
next
  case (PreviewEnds f)
  assume a: "log_agrees s"
  from meanwhile_preview_log[of e f s] obtain pre ty msg where
    t: "trace (meanwhile (preview_ends e f) s) = trace s @ pre @ [Meanwhile (Logged ty msg)]"
    and pre: "pre = [] \<or> (\<exists>m. pre = [Meanwhile (Caught Preview m)])"
    and l: "logs (meanwhile (preview_ends e f) s) =
              logs s @ [\<lparr>message = msg, type = ty,
                             timestamp = toLocaleTimeString e (length (logs s))\<rparr>]"
    by auto
  from a t pre l show ?thesis
    by (auto simp: PreviewEnds log_agrees_def since_click_append)
qed

lemma log_agrees_interrupted: "log_agrees s \<Longrightarrow> log_agrees (interrupted e is s)"
  by (induction "is" arbitrary: s) (simp_all add: log_agrees_interrupt)

lemma log_agrees_awaited [simp]: "log_agrees s \<Longrightarrow> log_agrees (awaited e r ok s)"
  by (simp add: awaited_def Let_def log_agrees_interrupted)

lemma log_agrees_start: "log_agrees (clearLogs (s\<lparr>trace := []\<rparr>))"
  by (simp add: log_agrees_def)

subsection \<open>Counters\<close>

lemma counters_append [simp]: "counters (xs @ ys) = counters xs @ counters ys"
  by (induction xs rule: counters.induct) auto

lemma tracked_addLog [simp]: "tracked (addLog e m t s) = tracked s"
  by (simp add: tracked_def steady_def)

lemma tracked_called [simp]: "tracked (called r ok s) = tracked s"
  by (simp add: tracked_def steady_def)

lemma tracked_caught [simp]: "tracked (caught site m s) = tracked s"
  by (simp add: tracked_def steady_def)

lemma tracked_migration_failed [simp]: "tracked (migration_failed e site m s) = tracked s"
  by (simp add: tracked_def steady_def)

lemma tracked_updates [simp]:
  "tracked (s\<lparr>success := x\<rparr>) = tracked s"
  "tracked (s\<lparr>isProcessing := b\<rparr>) = tracked s"
  "tracked (s\<lparr>currentOperation := x\<rparr>) = tracked s"
  by (simp_all add: tracked_def)

lemma sorted_le_last: "sorted xs \<Longrightarrow> y \<in> set xs \<Longrightarrow> y \<le> last (xs::nat list)"
  by (induction xs) auto

lemma tracked_le: "tracked s \<Longrightarrow> progress s \<le> totalItems s"
  unfolding tracked_def steady_def
  by (metis last_in_set list_all_iff within_total_def fst_conv snd_conv)

lemma tracked_snapshot:
  assumes "tracked s" "progress s \<le> p" "p \<le> t"
  shows "counters (trace s @ [Counters p t]) \<noteq> [] \<and>
         last (counters (trace s @ [Counters p t])) = (p, t) \<and>
         steady (trace s @ [Counters p t])"
proof -
  let ?cs = "counters (trace s)"
  from assms(1) have ne: "?cs \<noteq> []" and lst: "last ?cs = (progress s, totalItems s)"
    and srt: "sorted (map fst ?cs)" and win: "list_all within_total ?cs"
    by (auto simp: tracked_def steady_def)
  have "y \<le> progress s" if "y \<in> set (map fst ?cs)" for y
    using sorted_le_last[OF srt that] ne lst by (simp add: last_map)
  with assms(2) have "sorted (map fst ?cs @ [p])"
    using srt by (force simp: sorted_append)
  with win assms(3) show ?thesis
    by (simp add: steady_def within_total_def)
qed

lemma tracked_set_progress:
  assumes "tracked s" "progress s < totalItems s" "n = Suc (progress s)"
  shows "tracked (set_progress n s)"
  using tracked_snapshot[OF assms(1), of n "totalItems s"] assms(2,3)
  by (simp add: tracked_def)

lemma tracked_set_totalItems:
  assumes "tracked s" "progress s \<le> n"
  shows "tracked (set_totalItems n s)"
  using tracked_snapshot[OF assms(1), of "progress s" n] assms(2)
  by (simp add: tracked_def)

lemma tracked_start: "tracked (clearLogs (s\<lparr>trace := []\<rparr>))"
  by (simp add: tracked_def steady_def within_total_def)

text \<open>Without a click the counters stay as they are while a request is pending.\<close>

lemma interrupt_quiet:
  assumes "\<not> is_tab_click i"
  shows "progress (interrupt e i s) = progress s"
    and "totalItems (interrupt e i s) = totalItems s"
    and "counters (trace (interrupt e i s)) = counters (trace s)"
proof -
  from assms obtain f where i: "i = PreviewEnds f" by (cases i) auto
  from meanwhile_preview_log[of e f s] obtain pre ty msg where
    t: "trace (meanwhile (preview_ends e f) s) = trace s @ pre @ [Meanwhile (Logged ty msg)]"
    and pre: "pre = [] \<or> (\<exists>m. pre = [Meanwhile (Caught Preview m)])" by auto
  show "progress (interrupt e i s) = progress s" "totalItems (interrupt e i s) = totalItems s"
    by (simp_all add: i)
  from t pre show "counters (trace (interrupt e i s)) = counters (trace s)"
    by (auto simp: i counters_append)
qed

lemma interrupted_quiet:
  "\<not> list_ex is_tab_click is \<Longrightarrow>
   progress (interrupted e is s) = progress s \<and>
   totalItems (interrupted e is s) = totalItems s \<and>
   counters (trace (interrupted e is s)) = counters (trace s)"
  by (induction "is" arbitrary: s) (simp_all add: interrupt_quiet)

lemma awaited_quiet:
  assumes "no_tab_click e"
  shows "progress (awaited e r ok s) = progress s"
    and "totalItems (awaited e r ok s) = totalItems s"
    and "counters (trace (awaited e r ok s)) = counters (trace s)"
    and "tracked (awaited e r ok s) = tracked s"
proof -
  from assms have q: "\<not> list_ex is_tab_click (interruptions e (trace s @ [Call r ok]))"
    by (simp add: no_tab_click_def)
  from interrupted_quiet[OF q, of e "called r ok s"]
  show p: "progress (awaited e r ok s) = progress s"
    and t: "totalItems (awaited e r ok s) = totalItems s"
    and c: "counters (trace (awaited e r ok s)) = counters (trace s)"
    by (simp_all add: awaited_def Let_def counters_append)
  from p t c show "tracked (awaited e r ok s) = tracked s"
    by (simp add: tracked_def steady_def)
qed

lemma accounted_grows:
  assumes "accounted excused s"
    and "\<exists>new. deeds s' = deeds s @ new \<and> surfaced excused new"
    and "log_agrees s \<Longrightarrow> log_agrees s'"
  shows "accounted excused s'"
  using assms by (auto simp: accounted_def surfaced_append)

lemma accounted_addLog: "accounted excused s \<Longrightarrow> accounted excused (addLog e m t s)"
  by (erule accounted_grows) simp_all

subsection \<open>The loops of a run from an archive: what is moved\<close>

lemma upload_file_transfers:
  "requests (transfers (upload_file e c b fi s)) = requests (transfers s) @ file_requests c b fi"
  by (simp add: upload_file_def file_requests_def Let_def split: sum.splits option.splits)

lemma upload_files_transfers:
  "requests (transfers (upload_files e c b files s)) =
   requests (transfers s) @ concat (map (file_requests c b) files)"
  by (induction files arbitrary: s) (auto simp: upload_file_transfers)

lemma create_bucket_zip_transfers:
  "create_bucket_zip e c b s = (go, s2) \<Longrightarrow> transfers s2 = transfers s"
  by (auto simp: create_bucket_zip_def Let_def split: option.splits if_splits)

lemma create_bucket_zip_refused:
  "create_bucket_zip e c b s = (False, s2) \<Longrightarrow> list_ex is_creation_refusal (trace s2)"
  by (auto simp: create_bucket_zip_def Let_def split: option.splits if_splits)

text \<open>When the creation of the bucket is not refused, the loop goes on to its files.\<close>

lemma upload_bucket_unrefused:
  assumes "\<not> list_ex is_creation_refusal (trace (upload_bucket e c ex b files s))"
  shows "\<exists>s2. upload_bucket e c ex b files s = upload_files e c b files s2 \<and>
              transfers s2 = transfers s"
proof -
  let ?s1 = "addLog e (CHR 0x0A # ''Processing bucket: '' @ b) Info s"
  obtain go s2 where cr: "create_bucket_zip e c b ?s1 = (go, s2)"
    by (cases "create_bucket_zip e c b ?s1")
  show ?thesis
  proof (cases "b \<in> set ex")
    case True
    then have "upload_bucket e c ex b files s = upload_files e c b files ?s1"
      by (simp add: upload_bucket_def Let_def)
    then show ?thesis by (intro exI[of _ ?s1]) simp
  next
    case False
    have go
    proof (rule ccontr)
      assume "\<not> go"
      with cr False have "upload_bucket e c ex b files s = s2"
        by (simp add: upload_bucket_def Let_def)
      with create_bucket_zip_refused[of e c b ?s1 s2] cr \<open>\<not> go\<close> assms show False
        by simp
    qed
    with cr False have "upload_bucket e c ex b files s = upload_files e c b files s2"
      by (simp add: upload_bucket_def Let_def)
    with create_bucket_zip_transfers[OF cr] show ?thesis
      by (intro exI[of _ s2]) simp
  qed
qed

lemma upload_bucket_transfers:
  assumes "\<not> list_ex is_creation_refusal (trace (upload_bucket e c ex b files s))"
  shows "requests (transfers (upload_bucket e c ex b files s)) =
         requests (transfers s) @ concat (map (file_requests c b) files)"
  using upload_bucket_unrefused[OF assms] by (auto simp: upload_files_transfers)

lemma upload_buckets_transfers:
  assumes "\<not> list_ex is_creation_refusal (trace (upload_buckets e c ex bs s))"
  shows "requests (transfers (upload_buckets e c ex bs s)) =
         requests (transfers s) @ plan_requests c bs"
  using assms
proof (induction bs arbitrary: s)
  case Nil
  then show ?case by (simp add: plan_requests_def)
next
  case (Cons x rest)
  obtain b files where x: "x = (b, files)" by (cases x)
  let ?s1 = "upload_bucket e c ex b files s"
  from Cons.prems x have fin:
    "\<not> list_ex is_creation_refusal (trace (upload_buckets e c ex rest ?s1))"
    by simp
  then have first: "\<not> list_ex is_creation_refusal (trace ?s1)"
    using upload_buckets_keeps[of is_creation_refusal ?s1 e c ex rest] by blast
  from Cons.IH[OF fin] upload_bucket_transfers[OF first] x show ?case
    by (simp add: plan_requests_def)
qed

subsection \<open>The loops of a run from an archive: failures and the log\<close>

lemma upload_file_accounted:
  "accounted excused s \<Longrightarrow> accounted excused (upload_file e c b fi s)"
  by (auto simp: upload_file_def Let_def is_ok_def split: sum.splits option.splits
      elim!: accounted_grows)

lemma upload_files_accounted:
  "accounted excused s \<Longrightarrow> accounted excused (upload_files e c b files s)"
  by (induction files arbitrary: s) (auto simp: upload_file_accounted)

lemma create_bucket_zip_accounted:
  "create_bucket_zip e c b s = (go, s2) \<Longrightarrow> accounted excused s \<Longrightarrow> accounted excused s2"
  by (auto simp: create_bucket_zip_def Let_def is_ok_def silent_def
      split: option.splits if_splits elim!: accounted_grows)

lemma upload_bucket_accounted:
  assumes "accounted excused s"
  shows "accounted excused (upload_bucket e c ex b files s)"
proof -
  let ?s1 = "addLog e (CHR 0x0A # ''Processing bucket: '' @ b) Info s"
  from assms have s1: "accounted excused ?s1"
    by (rule accounted_addLog)
  obtain go s2 where cr: "create_bucket_zip e c b ?s1 = (go, s2)"
    by (cases "create_bucket_zip e c b ?s1")
  from create_bucket_zip_accounted[OF cr s1] have "accounted excused s2" .
  with s1 cr show ?thesis
    by (auto simp: upload_bucket_def Let_def upload_files_accounted split: bool.splits)
qed

lemma upload_buckets_accounted:
  "accounted excused s \<Longrightarrow> accounted excused (upload_buckets e c ex bs s)"
  by (induction e c ex bs s rule: upload_buckets.induct) (auto simp: upload_bucket_accounted)

subsection \<open>The loops of a run from an archive: the buckets asked for\<close>

lemma create_bucket_zip_creates:
  "create_bucket_zip e c b s = (go, s2) \<Longrightarrow> list_ex (creates_private b) (trace s2)"
  by (auto simp: create_bucket_zip_def Let_def awaited_list_ex split: option.splits if_splits)

lemma upload_bucket_creates:
  assumes "b \<notin> set ex"
  shows "list_ex (creates_private b) (trace (upload_bucket e c ex b files s))"
proof -
  let ?s1 = "addLog e (CHR 0x0A # ''Processing bucket: '' @ b) Info s"
  obtain go s2 where cr: "create_bucket_zip e c b ?s1 = (go, s2)"
    by (cases "create_bucket_zip e c b ?s1")
  from create_bucket_zip_creates[OF cr] assms cr show ?thesis
    by (auto simp: upload_bucket_def Let_def upload_files_keeps split: bool.splits)
qed

lemma upload_buckets_creates:
  "(b, files) \<in> set bs \<Longrightarrow> b \<notin> set ex \<Longrightarrow>
   list_ex (creates_private b) (trace (upload_buckets e c ex bs s))"
proof (induction bs arbitrary: s)
  case Nil
  then show ?case by simp
next
  case (Cons x rest)
  obtain bucketName files' where x: "x = (bucketName, files')" by (cases x)
  show ?case
  proof (cases "(b, files) = x")
    case True
    with x upload_bucket_creates[OF Cons.prems(2), of e c files' s]
    have "list_ex (creates_private b) (trace (upload_bucket e c ex bucketName files' s))"
      by simp
    with x show ?thesis by (simp add: upload_buckets_keeps)
  next
    case False
    with Cons x show ?thesis by auto
  qed
qed

subsection \<open>The loops of a run from an archive: the counters when no tab is clicked\<close>

lemma upload_file_counters:
  assumes "no_tab_click e"
  shows "totalItems (upload_file e c b fi s) = totalItems s"
    and "progress (upload_file e c b fi s) = Suc (progress s)"
    and "counters (trace (upload_file e c b fi s)) =
         counters (trace s) @ [(Suc (progress s), totalItems s)]"
  using assms
  by (simp_all add: upload_file_def Let_def awaited_quiet split: sum.splits option.splits)

lemma upload_file_tracked:
  "no_tab_click e \<Longrightarrow> tracked s \<Longrightarrow> progress s < totalItems s \<Longrightarrow>
   tracked (upload_file e c b fi s)"
  by (auto simp: upload_file_def Let_def tracked_set_progress awaited_quiet
      split: sum.splits option.splits)

lemma upload_files_counters:
  assumes "no_tab_click e"
  shows "totalItems (upload_files e c b files s) = totalItems s \<and>
         progress (upload_files e c b files s) = progress s + length files \<and>
         (\<exists>new. counters (trace (upload_files e c b files s)) = counters (trace s) @ new \<and>
                list_all (has_total (totalItems s)) new)"
proof (induction files arbitrary: s)
  case Nil
  show ?case by simp
next
  case (Cons fi files)
  from Cons[of "upload_file e c b fi s"] upload_file_counters[OF assms, of c b fi s]
  show ?case by (auto simp: has_total_def)
qed

lemma upload_files_tracked:
  "no_tab_click e \<Longrightarrow> tracked s \<Longrightarrow> progress s + length files \<le> totalItems s \<Longrightarrow>
   tracked (upload_files e c b files s)"
  by (induction files arbitrary: s) (auto simp: upload_file_tracked upload_file_counters)

lemma create_bucket_zip_counters:
  assumes "no_tab_click e" "create_bucket_zip e c b s = (go, s2)"
  shows "tracked s2 = tracked s" "progress s2 = progress s" "totalItems s2 = totalItems s"
    "counters (trace s2) = counters (trace s)"
  using assms
  by (auto simp: create_bucket_zip_def Let_def awaited_quiet split: option.splits if_splits)

lemma upload_bucket_counters:
  assumes "no_tab_click e" "tracked s" "progress s + length files \<le> totalItems s"
  shows "tracked (upload_bucket e c ex b files s) \<and>
         totalItems (upload_bucket e c ex b files s) = totalItems s \<and>
         progress (upload_bucket e c ex b files s) \<le> progress s + length files \<and>
         (\<exists>new. counters (trace (upload_bucket e c ex b files s)) = counters (trace s) @ new \<and>
                list_all (has_total (totalItems s)) new)"
proof -
  let ?s1 = "addLog e (CHR 0x0A # ''Processing bucket: '' @ b) Info s"
  obtain go s2 where cr: "create_bucket_zip e c b ?s1 = (go, s2)"
    by (cases "create_bucket_zip e c b ?s1")
  from create_bucket_zip_counters[OF assms(1) cr] assms(2)
  have s2: "tracked s2" "progress s2 = progress s" "totalItems s2 = totalItems s"
    "counters (trace s2) = counters (trace s)"
    by simp_all
  from upload_files_counters[OF assms(1), of c b files s2] s2
    upload_files_tracked[OF assms(1) s2(1), of files c b] assms(3)
  have a: "tracked (upload_files e c b files s2) \<and>
         totalItems (upload_files e c b files s2) = totalItems s \<and>
         progress (upload_files e c b files s2) \<le> progress s + length files \<and>
         (\<exists>new. counters (trace (upload_files e c b files s2)) = counters (trace s) @ new \<and>
                list_all (has_total (totalItems s)) new)"
    by simp
  from upload_files_counters[OF assms(1), of c b files ?s1]
    upload_files_tracked[OF assms(1), of ?s1 files c b] assms(2,3)
  have b: "tracked (upload_files e c b files ?s1) \<and>
         totalItems (upload_files e c b files ?s1) = totalItems s \<and>
         progress (upload_files e c b files ?s1) \<le> progress s + length files \<and>
         (\<exists>new. counters (trace (upload_files e c b files ?s1)) = counters (trace s) @ new \<and>
                list_all (has_total (totalItems s)) new)"
    by simp
  from a b s2 cr show ?thesis
    by (auto simp: upload_bucket_def Let_def split: bool.splits)
qed

lemma upload_buckets_counters:
  "no_tab_click e \<Longrightarrow> tracked s \<Longrightarrow> progress s + file_count bs \<le> totalItems s \<Longrightarrow>
   tracked (upload_buckets e c ex bs s) \<and>
   totalItems (upload_buckets e c ex bs s) = totalItems s \<and>
   (\<exists>new. counters (trace (upload_buckets e c ex bs s)) = counters (trace s) @ new \<and>
          list_all (has_total (totalItems s)) new)"
proof (induction e c ex bs s rule: upload_buckets.induct)
  case (1 e newClient existingBucketNames s)
  then show ?case by simp
next
  case (2 e newClient existingBucketNames bucketName files rest s)
  let ?s1 = "upload_bucket e newClient existingBucketNames bucketName files s"
  from 2(2-4) have le: "progress s + length files \<le> totalItems s"
    by (simp add: file_count_def)
  from upload_bucket_counters[OF 2(2,3) le, of newClient existingBucketNames bucketName]
  obtain new1 where s1: "tracked ?s1" "totalItems ?s1 = totalItems s"
    "progress ?s1 \<le> progress s + length files"
    "counters (trace ?s1) = counters (trace s) @ new1" "list_all (has_total (totalItems s)) new1"
    by blast
  from s1 2(4) have "progress ?s1 + file_count rest \<le> totalItems ?s1"
    by (simp add: file_count_def)
  from 2(1)[OF 2(2) s1(1) this] s1 show ?case
    by auto
qed

text \<open>When no tab is clicked and no creation is refused, every file is counted.\<close>

lemma upload_buckets_progress:
  assumes "no_tab_click e"
    and "\<not> list_ex is_creation_refusal (trace (upload_buckets e c ex bs s))"
  shows "progress (upload_buckets e c ex bs s) = progress s + file_count bs"
  using assms(2)
proof (induction bs arbitrary: s)
  case Nil
  then show ?case by (simp add: file_count_def)
next
  case (Cons x rest)
  obtain b files where x: "x = (b, files)" by (cases x)
  let ?s1 = "upload_bucket e c ex b files s"
  from Cons.prems x have fin:
    "\<not> list_ex is_creation_refusal (trace (upload_buckets e c ex rest ?s1))"
    by simp
  then have first: "\<not> list_ex is_creation_refusal (trace ?s1)"
    using upload_buckets_keeps[of is_creation_refusal ?s1 e c ex rest] by blast
  let ?s0 = "addLog e (CHR 0x0A # ''Processing bucket: '' @ b) Info s"
  obtain go s2 where cr: "create_bucket_zip e c b ?s0 = (go, s2)"
    by (cases "create_bucket_zip e c b ?s0")
  have "progress ?s1 = progress s + length files"
  proof (cases "b \<in> set ex")
    case True
    then show ?thesis
      using upload_files_counters[OF assms(1), of c b files ?s0]
      by (simp add: upload_bucket_def Let_def)
  next
    case False
    have go
    proof (rule ccontr)
      assume "\<not> go"
      with cr False have "?s1 = s2"
        by (simp add: upload_bucket_def Let_def)
      with create_bucket_zip_refused[of e c b ?s0 s2] cr \<open>\<not> go\<close> first show False
        by simp
    qed
    with cr False have "?s1 = upload_files e c b files s2"
      by (simp add: upload_bucket_def Let_def)
    with create_bucket_zip_counters(2)[OF assms(1) cr]
      upload_files_counters[OF assms(1), of c b files s2]
    show ?thesis by simp
  qed
  with Cons.IH[OF fin] x show ?case
    by (simp add: file_count_def)
qed

subsection \<open>The order of the buckets\<close>

lemma sum_list_insort_key:
  "sum_list (map f (insort_key k x xs)) = (f x :: nat) + sum_list (map f xs)"
  by (induction xs) auto

lemma sum_list_sort_key: "sum_list (map f (sort_key k xs)) = (sum_list (map f xs) :: nat)"
  by (induction xs) (auto simp: sum_list_insort_key)

lemma sum_list_filter_split:
  "sum_list (map f (filter P xs)) + sum_list (map f (filter (\<lambda>x. \<not> P x) xs)) =
   (sum_list (map f xs) :: nat)"
  by (induction xs) auto

lemma file_count_object_entries [simp]: "file_count (object_entries kvs) = file_count kvs"
  by (simp add: file_count_def object_entries_def sum_list_sort_key sum_list_filter_split)

lemma set_object_entries [simp]: "set (object_entries kvs) = set kvs"
  by (auto simp: object_entries_def)

lemma object_entries_Nil [simp]: "(object_entries kvs = []) = (kvs = [])"
  using set_object_entries[of kvs] by (metis set_empty)

lemma foldl_file_count:
  "foldl (\<lambda>sum files. sum + length files) n (map snd kvs) = n + file_count kvs"
  by (induction kvs arbitrary: n) (auto simp: file_count_def)

subsection \<open>The run from an archive once the archive is parsed\<close>

lemma zip_event_not_run_catch: "zip_event ev \<Longrightarrow> \<not> is_run_catch ev"
  by (cases ev) auto

lemma zip_event_private: "zip_event ev \<Longrightarrow> \<not> creates_public_bucket ev"
  by (induction ev rule: zip_event.induct) auto

lemma list_all_zip_quiet: "list_all zip_event evs \<Longrightarrow> \<not> list_ex is_run_catch evs"
  by (auto simp: list_ex_iff list_all_iff dest: zip_event_not_run_catch)

lemma list_all_zip_private: "list_all zip_event evs \<Longrightarrow> \<not> list_ex creates_public_bucket evs"
  by (auto simp: list_ex_iff list_all_iff dest: zip_event_private)

text \<open>
  When the destination answers the listing of its buckets, \<^verbatim>\<open>upload_all\<close> is the loop over
  the buckets of the archive followed by the message of success. The names the loop takes
  as existing are those of the answer; an error returned in their place leaves none.
\<close>

lemma upload_all_completes:
  assumes "listing_answered e"
  shows "\<exists>ex ok. upload_all e c bf s =
           (upload_buckets e c ex (object_entries bf)
              (awaited e (ListBuckets c) ok
                 (addLog e (''Total files to upload: '' @ string_of_nat (file_count bf)) Info
                    (set_totalItems (file_count bf)
                       (addLog e (''Found '' @ string_of_nat (length (map fst (object_entries bf))) @
                          '' bucket(s): '' @ join '', '' (map fst (object_entries bf))) Info s)))))
           \<lparr>success :=
              ''Migration completed! Uploaded '' @
              string_of_nat (progress (upload_buckets e c ex (object_entries bf)
              (awaited e (ListBuckets c) ok
                 (addLog e (''Total files to upload: '' @ string_of_nat (file_count bf)) Info
                    (set_totalItems (file_count bf)
                       (addLog e (''Found '' @ string_of_nat (length (map fst (object_entries bf))) @
                          '' bucket(s): '' @ join '', '' (map fst (object_entries bf))) Info s)))))) @
              '' out of '' @
              string_of_nat (totalItems (upload_buckets e c ex (object_entries bf)
              (awaited e (ListBuckets c) ok
                 (addLog e (''Total files to upload: '' @ string_of_nat (file_count bf)) Info
                    (set_totalItems (file_count bf)
                       (addLog e (''Found '' @ string_of_nat (length (map fst (object_entries bf))) @
                          '' bucket(s): '' @ join '', '' (map fst (object_entries bf))) Info s)))))) @
              '' files.''\<rparr> \<and>
           (\<forall>existing. (\<forall>h. listBuckets e h c = Data existing) \<longrightarrow> ex = map name existing)"
proof -
  let ?s3 = "addLog e (''Total files to upload: '' @ string_of_nat (file_count bf)) Info
     (set_totalItems (file_count bf)
       (addLog e (''Found '' @ string_of_nat (length (map fst (object_entries bf))) @
                  '' bucket(s): '' @ join '', '' (map fst (object_entries bf))) Info s))"
  let ?r = "listBuckets e (trace ?s3) c"
  from assms have ans: "case ?r of Thrown m \<Rightarrow> False | Data bs \<Rightarrow> True | ErrorReturned m \<Rightarrow> True"
    unfolding listing_answered_def by blast
  show ?thesis
  proof (cases ?r)
    case (Data bs)
    have "\<forall>existing. (\<forall>h. listBuckets e h c = Data existing) \<longrightarrow> map name bs = map name existing"
      using Data by auto
    with Data show ?thesis
      by (intro exI[of _ "map name bs"] exI[of _ True])
         (simp add: upload_all_def Let_def foldl_file_count is_ok_def)
  next
    case (ErrorReturned m)
    have "\<forall>existing. (\<forall>h. listBuckets e h c = Data existing) \<longrightarrow> [] = map name existing"
      using ErrorReturned by auto
    with ErrorReturned show ?thesis
      by (intro exI[of _ "[]"] exI[of _ False])
         (simp add: upload_all_def Let_def foldl_file_count is_ok_def)
  next
    case (Thrown m)
    with ans show ?thesis by simp
  qed
qed

lemma upload_all_private:
  assumes "\<not> list_ex creates_public_bucket (trace s)"
  shows "\<not> list_ex creates_public_bucket (trace (upload_all e c bf s))"
proof -
  have loop: "\<not> list_ex creates_public_bucket
                 (trace (upload_buckets e c ex (object_entries bf) s'))"
    if "\<not> list_ex creates_public_bucket (trace s')" for ex s'
    using upload_buckets_step[of s' e c ex "object_entries bf"] that
    by (auto simp: step_def dest: list_all_zip_private)
  from assms show ?thesis
    by (auto simp: upload_all_def Let_def loop split: response.splits)
qed

text \<open>
  An error that the destination returns to the listing of its buckets is not read. A
  failed listing has to be excused for that case only: a listing that throws is caught.
\<close>

lemma upload_all_accounted:
  assumes "accounted excused s"
    and "excused (ListBuckets c) \<or> (\<forall>h m. listBuckets e h c \<noteq> ErrorReturned m)"
  shows "accounted excused (upload_all e c bf s)"
proof -
  let ?s3 = "addLog e (''Total files to upload: '' @ string_of_nat (file_count bf)) Info
     (set_totalItems (file_count bf)
       (addLog e (''Found '' @ string_of_nat (length (map fst (object_entries bf))) @
                  '' bucket(s): '' @ join '', '' (map fst (object_entries bf))) Info s))"
  let ?r = "listBuckets e (trace ?s3) c"
  let ?s4 = "awaited e (ListBuckets c) (is_ok ?r) ?s3"
  from assms(1) have s3: "accounted excused ?s3"
    by (elim accounted_grows) simp_all
  show ?thesis
  proof (cases ?r)
    case (Data bs)
    then have "is_ok ?r" by (simp add: is_ok_def)
    with s3 have "accounted excused ?s4"
      by (elim accounted_grows) simp_all
    then have "accounted excused (upload_buckets e c (map name bs) (object_entries bf) ?s4)"
      by (rule upload_buckets_accounted)
    with Data show ?thesis
      by (simp add: upload_all_def Let_def foldl_file_count accounted_def)
  next
    case (ErrorReturned m)
    with assms(2) have "excused (ListBuckets c)" by blast
    with s3 have "accounted excused ?s4"
      by (elim accounted_grows) simp_all
    then have "accounted excused (upload_buckets e c [] (object_entries bf) ?s4)"
      by (rule upload_buckets_accounted)
    with ErrorReturned show ?thesis
      by (simp add: upload_all_def Let_def foldl_file_count accounted_def)
  next
    case (Thrown m)
    from s3 have "accounted excused (migration_failed e ZipRun m ?s4)"
      by (elim accounted_grows) (simp_all add: silent_def)
    with Thrown show ?thesis
      by (simp add: upload_all_def Let_def foldl_file_count)
  qed
qed

text \<open>When no tab is clicked, the counters stay in step and every later snapshot has the total.\<close>

lemma upload_all_counters:
  assumes "no_tab_click e" "tracked s" "progress s = 0"
  shows "tracked (upload_all e c bf s) \<and>
         (\<exists>rest. counters (trace (upload_all e c bf s)) =
                    counters (trace s) @ (0, file_count bf) # rest \<and>
                  list_all (has_total (file_count bf)) rest)"
proof -
  let ?s3 = "addLog e (''Total files to upload: '' @ string_of_nat (file_count bf)) Info
     (set_totalItems (file_count bf)
       (addLog e (''Found '' @ string_of_nat (length (map fst (object_entries bf))) @
                  '' bucket(s): '' @ join '', '' (map fst (object_entries bf))) Info s))"
  let ?r = "listBuckets e (trace ?s3) c"
  let ?s4 = "awaited e (ListBuckets c) (is_ok ?r) ?s3"
  have s4: "tracked ?s4" "progress ?s4 = 0" "totalItems ?s4 = file_count bf"
    "counters (trace ?s4) = counters (trace s) @ [(0, file_count bf)]"
    using assms(2,3) by (simp_all add: awaited_quiet[OF assms(1)] tracked_set_totalItems)
  have loop: "tracked (upload_buckets e c ex (object_entries bf) ?s4) \<and>
      (\<exists>new. counters (trace (upload_buckets e c ex (object_entries bf) ?s4)) =
                counters (trace s) @ (0, file_count bf) # new \<and>
              list_all (has_total (file_count bf)) new)" for ex
    using upload_buckets_counters[OF assms(1) s4(1), of "object_entries bf" c ex] s4
    by auto
  from loop s4 assms(1) show ?thesis
    by (auto simp: upload_all_def Let_def foldl_file_count is_ok_def split: response.splits)
qed

subsection \<open>The run from an archive, as a whole\<close>

lemma zip_loading_fields [simp]:
  "progress (zip_loading e s) = 0"
  "totalItems (zip_loading e s) = 0"
  "error (zip_loading e s) = []"
  "success (zip_loading e s) = []"
  "transfers (zip_loading e s) = []"
  "\<not> list_ex is_transfer (trace (zip_loading e s))"
  "\<not> list_ex is_write (trace (zip_loading e s))"
  "\<not> list_ex is_run_catch (trace (zip_loading e s))"
  "\<not> list_ex creates_public_bucket (trace (zip_loading e s))"
  by (simp_all add: zip_loading_def zip_started_def transfers_def)

lemma zip_parsed_fields [simp]:
  "progress (zip_parsed e s entries) = 0"
  "totalItems (zip_parsed e s entries) = 0"
  "error (zip_parsed e s entries) = []"
  "success (zip_parsed e s entries) = []"
  "transfers (zip_parsed e s entries) = []"
  "\<not> list_ex is_transfer (trace (zip_parsed e s entries))"
  "\<not> list_ex is_write (trace (zip_parsed e s entries))"
  "\<not> list_ex is_run_catch (trace (zip_parsed e s entries))"
  "\<not> list_ex creates_public_bucket (trace (zip_parsed e s entries))"
  by (simp_all add: zip_parsed_def parseZipStructure_def awaited_clean split: option.splits)

lemma zip_loading_accounted: "accounted excused (zip_loading e s)"
  by (simp add: accounted_def zip_loading_def zip_started_def deeds_def log_agrees_start)

lemma zip_parsed_accounted: "accounted excused (zip_parsed e s entries)"
proof -
  have "accounted excused (awaited e LoadAsync True (zip_loading e s))"
    using zip_loading_accounted[of excused e s] by (elim accounted_grows) simp_all
  then show ?thesis
    by (auto simp: zip_parsed_def parseZipStructure_def accounted_addLog split: option.splits)
qed

lemma zip_parsed_counters:
  assumes "no_tab_click e"
  shows "tracked (zip_parsed e s entries)"
    and "counters (trace (zip_parsed e s entries)) = [(0, totalItems s), (0, 0)]"
  using assms
  by (simp_all add: zip_parsed_def zip_loading_def zip_started_def parseZipStructure_def
      awaited_quiet tracked_start split: option.splits)

lemma zip_reaches:
  assumes "uploadedZip s = Some zipFile"
    and "createClient e (newProjectUrl s) (newProjectKey s) = None"
    and "loadAsync zipFile = Inr entries"
    and "parseZipStructure_value entries = Inr bucketFiles"
    and "bucketFiles \<noteq> []"
  shows "migrateFromZip e s =
         (upload_all e (destination s) bucketFiles (zip_parsed e s entries))
           \<lparr>isProcessing := False\<rparr>"
  using assms
  by (simp add: migrateFromZip_def Let_def migrate_entries_def parseZipStructure_def
      zip_parsed_def zip_loading_def zip_started_def destination_def)

lemma zip_fails:
  assumes "uploadedZip s = Some zipFile"
    and "createClient e (newProjectUrl s) (newProjectKey s) = None"
    and "loadAsync zipFile = Inl reason \<or>
         (\<exists>entries. loadAsync zipFile = Inr entries \<and>
            (parseZipStructure_value entries = Inl reason \<or>
             parseZipStructure_value entries = Inr [] \<and> reason = no_valid_bucket_structure))"
  shows "\<exists>s1. migrateFromZip e s = (migration_failed e ZipRun reason s1)\<lparr>isProcessing := False\<rparr> \<and>
              progress s1 = 0 \<and> totalItems s1 = 0 \<and> success s1 = [] \<and>
              \<not> list_ex is_transfer (trace s1) \<and> \<not> list_ex is_write (trace s1)"
  using assms(3)
proof (elim disjE exE conjE)
  assume "loadAsync zipFile = Inl reason"
  with assms(1,2) have
    "migrateFromZip e s =
       (migration_failed e ZipRun reason (awaited e LoadAsync False (zip_loading e s)))
         \<lparr>isProcessing := False\<rparr>"
    by (simp add: migrateFromZip_def Let_def zip_loading_def zip_started_def)
  then show ?thesis
    by (intro exI[of _ "awaited e LoadAsync False (zip_loading e s)"]) (simp add: awaited_clean)
next
  fix entries
  assume "loadAsync zipFile = Inr entries" "parseZipStructure_value entries = Inl reason"
  with assms(1,2) have
    "migrateFromZip e s =
       (migration_failed e ZipRun reason (zip_parsed e s entries))\<lparr>isProcessing := False\<rparr>"
    by (simp add: migrateFromZip_def Let_def migrate_entries_def parseZipStructure_def
        zip_parsed_def zip_loading_def zip_started_def)
  then show ?thesis by (intro exI[of _ "zip_parsed e s entries"]) simp
next
  fix entries
  assume "loadAsync zipFile = Inr entries" "parseZipStructure_value entries = Inr []"
    "reason = no_valid_bucket_structure"
  with assms(1,2) have
    "migrateFromZip e s =
       (migration_failed e ZipRun reason (zip_parsed e s entries))\<lparr>isProcessing := False\<rparr>"
    by (simp add: migrateFromZip_def Let_def migrate_entries_def parseZipStructure_def
        zip_parsed_def zip_loading_def zip_started_def)
  then show ?thesis by (intro exI[of _ "zip_parsed e s entries"]) simp
qed

text \<open>
  Whatever the archive and the destination are like, the run takes one of three ways: the
  client cannot be made, the archive cannot be used, or the files are uploaded.
\<close>

lemma zip_ways:
  assumes "uploadedZip s = Some zipFile"
  shows "(\<exists>m. migrateFromZip e s =
            (migration_failed e ZipRun m
               (called (CreateClient (newProjectUrl s) (newProjectKey s)) False (zip_started e s)))
              \<lparr>isProcessing := False\<rparr>) \<or>
         (\<exists>m. migrateFromZip e s =
            (migration_failed e ZipRun m (awaited e LoadAsync False (zip_loading e s)))
              \<lparr>isProcessing := False\<rparr>) \<or>
         (\<exists>m entries. migrateFromZip e s =
            (migration_failed e ZipRun m (zip_parsed e s entries))\<lparr>isProcessing := False\<rparr>) \<or>
         (\<exists>bucketFiles entries. migrateFromZip e s =
            (upload_all e (destination s) bucketFiles (zip_parsed e s entries))
              \<lparr>isProcessing := False\<rparr>)"
proof (cases "createClient e (newProjectUrl s) (newProjectKey s)")
  case (Some m)
  with assms have "migrateFromZip e s =
            (migration_failed e ZipRun m
               (called (CreateClient (newProjectUrl s) (newProjectKey s)) False (zip_started e s)))
              \<lparr>isProcessing := False\<rparr>"
    by (simp add: migrateFromZip_def Let_def zip_started_def)
  then show ?thesis by blast
next
  case None
  show ?thesis
  proof (cases "loadAsync zipFile")
    case (Inl m)
    with assms None have "migrateFromZip e s =
            (migration_failed e ZipRun m (awaited e LoadAsync False (zip_loading e s)))
              \<lparr>isProcessing := False\<rparr>"
      by (simp add: migrateFromZip_def Let_def zip_loading_def zip_started_def)
    then show ?thesis by blast
  next
    case (Inr entries)
    show ?thesis
    proof (cases "parseZipStructure_value entries")
      case (Inl m)
      from Inl \<open>loadAsync zipFile = Inr entries\<close>
      have "migrateFromZip e s =
            (migration_failed e ZipRun m (zip_parsed e s entries))\<lparr>isProcessing := False\<rparr>"
        using assms None
        by (simp add: migrateFromZip_def Let_def migrate_entries_def parseZipStructure_def
            zip_parsed_def zip_loading_def zip_started_def)
      then show ?thesis by blast
    next
      case bf: (Inr bucketFiles)
      show ?thesis
      proof (cases "bucketFiles = []")
        case True
        with assms None Inr bf have "migrateFromZip e s =
            (migration_failed e ZipRun no_valid_bucket_structure (zip_parsed e s entries))
              \<lparr>isProcessing := False\<rparr>"
          by (simp add: migrateFromZip_def Let_def migrate_entries_def parseZipStructure_def
              zip_parsed_def zip_loading_def zip_started_def)
        then show ?thesis by blast
      next
        case False
        from zip_reaches[OF assms None Inr bf False] show ?thesis by blast
      qed
    qed
  qed
qed

lemma zip_private:
  assumes "uploadedZip s \<noteq> None"
  shows "\<not> list_ex creates_public_bucket (trace (migrateFromZip e s))"
proof -
  from assms obtain zipFile where "uploadedZip s = Some zipFile" by auto
  from zip_ways[OF this, of e] show ?thesis
    by (auto simp: upload_all_private zip_started_def)
qed

lemma zip_accounted:
  assumes "uploadedZip s \<noteq> None"
    and "excused (ListBuckets (destination s)) \<or>
         (\<forall>h m. listBuckets e h (destination s) \<noteq> ErrorReturned m)"
  shows "accounted excused (migrateFromZip e s)"
proof -
  from assms obtain zipFile where z: "uploadedZip s = Some zipFile" by auto
  have started: "accounted excused (zip_started e s)"
    by (simp add: accounted_def zip_started_def deeds_def log_agrees_start)
  have a: "accounted excused
             (migration_failed e ZipRun m
                (called (CreateClient (newProjectUrl s) (newProjectKey s)) False (zip_started e s)))"
    for m
    using started by (elim accounted_grows) (simp_all add: silent_def)
  have b: "accounted excused
             (migration_failed e ZipRun m (awaited e LoadAsync False (zip_loading e s)))" for m
    using zip_loading_accounted[of excused e s]
    by (elim accounted_grows) (simp_all add: silent_def)
  have c: "accounted excused (migration_failed e ZipRun m (zip_parsed e s entries))"
    for m entries
    using zip_parsed_accounted[of excused e s entries]
    by (elim accounted_grows) (simp_all add: silent_def)
  have d: "accounted excused (upload_all e (destination s) bucketFiles (zip_parsed e s entries))"
    for bucketFiles entries
    using zip_parsed_accounted[of excused e s entries] assms(2) by (rule upload_all_accounted)
  from zip_ways[OF z, of e] a b c d show ?thesis
    by (auto simp: accounted_def)
qed

lemma zip_tracked:
  assumes "no_tab_click e" "uploadedZip s \<noteq> None"
  shows "tracked (migrateFromZip e s)"
proof -
  from assms obtain zipFile where z: "uploadedZip s = Some zipFile" by auto
  have "tracked (zip_started e s)" "tracked (zip_loading e s)"
    by (simp_all add: zip_started_def zip_loading_def tracked_start)
  with zip_ways[OF z, of e] zip_parsed_counters(1)[OF assms(1)]
    upload_all_counters[OF assms(1) zip_parsed_counters(1)[OF assms(1)]]
  show ?thesis
    by (auto simp: awaited_quiet[OF assms(1)])
qed

subsection \<open>The loops of a live run\<close>







subsection \<open>The loops of a live run: what is moved\<close>



lemma migrate_file_uploads:
  assumes "download e (trace s @ [Logged Info (''Downloading: '' @ p)]) c1 b p = Data d"
  shows "\<exists>ok. transfers (migrate_file e c1 c2 b p m s) =
              transfers s @ [Call (Download c1 b p) True, Call (Upload c2 b p d (JString m)) ok]"
  using assms by (auto simp: migrate_file_def Let_def is_ok_def split: option.splits)


lemma create_bucket_live_transfers [simp]:
  "transfers (create_bucket_live e c bucket s) = transfers s"
  by (simp add: create_bucket_live_def Let_def split: response.splits)



subsection \<open>The loops of a live run: the buckets asked for\<close>

lemma migrate_file_creations [simp]:
  "filter is_creation (asked (migrate_file e c1 c2 b p m s)) = filter is_creation (asked s)"
  by (simp add: migrate_file_def Let_def split: response.splits option.splits)




subsection \<open>The loops of a live run: failures and the log\<close>

lemma migrate_file_accounted:
  "accounted excused s \<Longrightarrow> accounted excused (migrate_file e c1 c2 b p m s)"
  by (auto simp: migrate_file_def Let_def is_ok_def split: response.splits option.splits
      elim!: accounted_grows)

lemma migrate_accounted:
  "accounted excused s \<longrightarrow> accounted excused (migrateFilesFromBucket e c1 c2 b p l s)"
  "accounted excused s \<longrightarrow> accounted excused (migrate_items e c1 c2 b p fs s)"
proof (induction e c1 c2 b p l s and e c1 c2 b p fs s
       rule: migrateFilesFromBucket_migrate_items.induct)
  case (1 e oldClient newClient bucketName path' m s)
  show ?case by (auto elim!: accounted_grows)
next
  case (2 e oldClient newClient bucketName path' files s)
  let ?s1 = "awaited e (ListObjects oldClient bucketName path') True s"
  have "accounted excused s \<longrightarrow> accounted excused ?s1"
    by (auto elim!: accounted_grows)
  moreover have "accounted excused ?s1 \<longrightarrow>
      accounted excused (set_totalItems (totalItems ?s1 + length files) ?s1)"
    by (auto elim!: accounted_grows)
  ultimately show ?case
    using 2 by (auto simp: Let_def)
next
  case (3 e oldClient newClient bucketName path' s)
  show ?case by simp
next
  case (4 e oldClient newClient bucketName path' nm mt sub fs s)
  then show ?case by (auto simp: migrate_file_accounted)
qed

text \<open>
  The \<^verbatim>\<open>catch\<close> around the creation of a bucket in a live run appends an entry of severity
  \<open>Info\<close> whatever it caught. An ``already exists'' that the destination returns is not
  thrown at all; a failed creation has to be excused for that case only.
\<close>

lemma create_bucket_live_accounted:
  assumes "accounted excused s"
    and "excused (CreateBucket c (name bucket) (public bucket)) \<or>
         (\<forall>h m. createBucket e h c (name bucket) (public bucket) = ErrorReturned m \<longrightarrow>
                \<not> str_includes m ''already exists'')"
  shows "accounted excused (create_bucket_live e c bucket s)"
proof (cases "createBucket e (trace s) c (name bucket) (public bucket)")
  case (Data u)
  with assms(1) show ?thesis
    by (auto simp: create_bucket_live_def Let_def is_ok_def elim!: accounted_grows)
next
  case (ErrorReturned m)
  show ?thesis
  proof (cases "str_includes m ''already exists''")
    case True
    with assms(2) ErrorReturned have "excused (CreateBucket c (name bucket) (public bucket))"
      by blast
    with assms(1) ErrorReturned True show ?thesis
      by (auto simp: create_bucket_live_def Let_def elim!: accounted_grows)
  next
    case False
    with assms(1) ErrorReturned show ?thesis
      by (auto simp: create_bucket_live_def Let_def silent_def elim!: accounted_grows)
  qed
next
  case (Thrown m)
  with assms(1) show ?thesis
    by (auto simp: create_bucket_live_def Let_def silent_def elim!: accounted_grows)
qed

lemma migrate_bucket_accounted:
  assumes "accounted excused s"
    and "(\<forall>r. is_creation r \<longrightarrow> excused r) \<or>
         (\<forall>h c b p m. createBucket e h c b p = ErrorReturned m \<longrightarrow>
                \<not> str_includes m ''already exists'')"
  shows "accounted excused (migrate_bucket e c1 c2 bucket s)"
proof -
  from assms(2) have "excused (CreateBucket c2 (name bucket) (public bucket)) \<or>
         (\<forall>h m. createBucket e h c2 (name bucket) (public bucket) = ErrorReturned m \<longrightarrow>
                \<not> str_includes m ''already exists'')"
    by auto
  with assms(1) show ?thesis
    unfolding migrate_bucket_def
    by (intro migrate_accounted(1)[rule_format] create_bucket_live_accounted accounted_addLog)
qed

lemma migrate_buckets_accounted:
  assumes "(\<forall>r. is_creation r \<longrightarrow> excused r) \<or>
         (\<forall>h c b p m. createBucket e h c b p = ErrorReturned m \<longrightarrow>
                \<not> str_includes m ''already exists'')"
  shows "accounted excused s \<Longrightarrow> accounted excused (migrate_buckets e c1 c2 buckets s)"
  by (induction buckets arbitrary: s) (auto simp: migrate_bucket_accounted[OF _ assms])

subsection \<open>The loops of a live run: the counters when no tab is clicked\<close>

lemma migrate_file_tracked:
  assumes "no_tab_click e" "tracked s" "progress s + Suc k \<le> totalItems s"
  shows "tracked (migrate_file e c1 c2 b p m s) \<and>
         progress (migrate_file e c1 c2 b p m s) + k \<le> totalItems (migrate_file e c1 c2 b p m s)"
  using assms
  by (auto simp: migrate_file_def Let_def tracked_set_progress awaited_quiet
      split: response.splits option.splits)

lemma migrate_tracked:
  "no_tab_click e \<longrightarrow>
   (\<forall>k. tracked s \<and> progress s + k \<le> totalItems s \<longrightarrow>
      tracked (migrateFilesFromBucket e c1 c2 b p l s) \<and>
      progress (migrateFilesFromBucket e c1 c2 b p l s) + k
        \<le> totalItems (migrateFilesFromBucket e c1 c2 b p l s))"
  "no_tab_click e \<longrightarrow>
   (\<forall>k. tracked s \<and> progress s + length fs + k \<le> totalItems s \<longrightarrow>
      tracked (migrate_items e c1 c2 b p fs s) \<and>
      progress (migrate_items e c1 c2 b p fs s) + k
        \<le> totalItems (migrate_items e c1 c2 b p fs s))"
proof (induction e c1 c2 b p l s and e c1 c2 b p fs s
       rule: migrateFilesFromBucket_migrate_items.induct)
  case (1 e oldClient newClient bucketName path' m s)
  then show ?case by (simp add: awaited_quiet)
next
  case (2 e oldClient newClient bucketName path' files s)
  show ?case
  proof (intro allI impI)
    fix k
    assume q: "no_tab_click e" and a: "tracked s \<and> progress s + k \<le> totalItems s"
    let ?s1 = "awaited e (ListObjects oldClient bucketName path') True s"
    from q have s1: "tracked ?s1 = tracked s" "progress ?s1 = progress s"
      "totalItems ?s1 = totalItems s"
      by (simp_all add: awaited_quiet)
    show "tracked (migrateFilesFromBucket e oldClient newClient bucketName path' (Files files) s) \<and>
      progress (migrateFilesFromBucket e oldClient newClient bucketName path' (Files files) s) + k
        \<le> totalItems (migrateFilesFromBucket e oldClient newClient bucketName path' (Files files) s)"
    proof (cases "files = []")
      case True
      with a s1 show ?thesis by simp
    next
      case False
      let ?s2 = "set_totalItems (totalItems ?s1 + length files) ?s1"
      have "tracked ?s2 \<and> progress ?s2 + length files + k \<le> totalItems ?s2"
        using a s1 by (simp add: tracked_set_totalItems)
      with 2[OF refl False, rule_format, OF q, of k] False show ?thesis
        by (simp add: Let_def)
    qed
  qed
next
  case (3 e oldClient newClient bucketName path' s)
  then show ?case by simp
next
  case (4 e oldClient newClient bucketName path' nm mt sub fs s)
  show ?case
  proof (intro allI impI)
    fix k
    assume q: "no_tab_click e"
      and a: "tracked s \<and> progress s + length (FileObject nm mt sub # fs) + k \<le> totalItems s"
    let ?s1 = "(if is_file (FileObject nm mt sub)
        then migrate_file e oldClient newClient bucketName (file_path path' nm) (the mt) s
        else migrateFilesFromBucket e oldClient newClient bucketName (file_path path' nm) sub s)"
    have "tracked ?s1 \<and> progress ?s1 + length fs + k \<le> totalItems ?s1"
    proof (cases "is_file (FileObject nm mt sub)")
      case True
      with a migrate_file_tracked[where s = s and k = "length fs + k" and e = e
          and ?c1.0 = oldClient and ?c2.0 = newClient and b = bucketName
          and p = "file_path path' nm" and m = "the mt", OF q]
      show ?thesis by (simp add: add.assoc)
    next
      case False
      with a 4(1)[OF False, rule_format, OF q, of "length fs + k"] show ?thesis
        by (simp add: add.assoc)
    qed
    with 4(2)[rule_format, OF q, of k]
    show "tracked (migrate_items e oldClient newClient bucketName path' (FileObject nm mt sub # fs) s) \<and>
      progress (migrate_items e oldClient newClient bucketName path' (FileObject nm mt sub # fs) s) + k
        \<le> totalItems (migrate_items e oldClient newClient bucketName path' (FileObject nm mt sub # fs) s)"
      by simp
  qed
qed

lemma create_bucket_live_counters:
  assumes "no_tab_click e"
  shows "tracked (create_bucket_live e c bucket s) = tracked s"
    and "progress (create_bucket_live e c bucket s) = progress s"
    and "totalItems (create_bucket_live e c bucket s) = totalItems s"
  using assms
  by (simp_all add: create_bucket_live_def Let_def awaited_quiet split: response.splits)

lemma migrate_bucket_tracked:
  "no_tab_click e \<Longrightarrow> tracked s \<Longrightarrow> tracked (migrate_bucket e c1 c2 bucket s)"
  unfolding migrate_bucket_def
  using migrate_tracked(1)[rule_format, of e _ 0]
  by (simp add: tracked_le create_bucket_live_counters)

lemma migrate_buckets_tracked:
  "no_tab_click e \<Longrightarrow> tracked s \<Longrightarrow> tracked (migrate_buckets e c1 c2 buckets s)"
  by (induction buckets arbitrary: s) (auto simp: migrate_bucket_tracked)

subsection \<open>The run from an archive when it completes\<close>

lemma zip_completes:
  assumes "uploadedZip s = Some zipFile"
    and "createClient e (newProjectUrl s) (newProjectKey s) = None"
    and "loadAsync zipFile = Inr entries"
    and "parseZipStructure_value entries = Inr bucketFiles"
    and "bucketFiles \<noteq> []"
    and "listing_answered e"
  shows "run_state (migrateFromZip e s) = Completed \<and> error (migrateFromZip e s) = [] \<and>
         (\<not> creation_refused (migrateFromZip e s) \<longrightarrow>
            requests (transfers (migrateFromZip e s)) =
              plan_requests (destination s) (object_entries bucketFiles)) \<and>
         (\<forall>existing. (\<forall>h. listBuckets e h (destination s) = Data existing) \<longrightarrow>
            (\<forall>(b, files)\<in>set bucketFiles. b \<notin> set (map name existing) \<longrightarrow>
               list_ex (creates_private b) (trace (migrateFromZip e s))))"
proof -
  let ?c = "destination s"
  let ?p = "zip_parsed e s entries"
  from upload_all_completes[OF assms(6), of ?c bucketFiles ?p] obtain ex ok s4 where
    s4: "s4 = awaited e (ListBuckets ?c) ok
                 (addLog e (''Total files to upload: '' @ string_of_nat (file_count bucketFiles)) Info
                    (set_totalItems (file_count bucketFiles)
                       (addLog e (''Found '' @ string_of_nat (length (map fst (object_entries bucketFiles))) @
                          '' bucket(s): '' @ join '', '' (map fst (object_entries bucketFiles))) Info ?p)))"
    and ua: "upload_all e ?c bucketFiles ?p =
           (upload_buckets e ?c ex (object_entries bucketFiles) s4)
           \<lparr>success :=
              ''Migration completed! Uploaded '' @
              string_of_nat (progress (upload_buckets e ?c ex (object_entries bucketFiles) s4)) @
              '' out of '' @
              string_of_nat (totalItems (upload_buckets e ?c ex (object_entries bucketFiles) s4)) @
              '' files.''\<rparr>"
    and ex: "\<forall>existing. (\<forall>h. listBuckets e h ?c = Data existing) \<longrightarrow> ex = map name existing"
    by blast
  let ?s5 = "upload_buckets e ?c ex (object_entries bucketFiles) s4"
  have run: "migrateFromZip e s = (upload_all e ?c bucketFiles ?p)\<lparr>isProcessing := False\<rparr>"
    by (rule zip_reaches[OF assms(1-5)])
  have f4: "error s4 = []" "\<not> list_ex is_run_catch (trace s4)" "transfers s4 = []"
    by (simp_all add: s4 awaited_clean)
  from upload_buckets_step[of s4 e ?c ex "object_entries bucketFiles"]
  obtain new where new: "trace ?s5 = trace s4 @ new" "list_all zip_event new"
    and err: "error s4 = [] \<longrightarrow> error ?s5 = []"
    by (auto simp: step_def)
  from list_all_zip_quiet[OF new(2)] new(1) f4(2)
  have quiet: "\<not> list_ex is_run_catch (trace ?s5)" by simp
  have state: "run_state (migrateFromZip e s) = Completed \<and> error (migrateFromZip e s) = []"
    using quiet err f4 by (simp add: run ua run_state_def)
  have att: "requests (transfers (migrateFromZip e s)) =
              plan_requests (destination s) (object_entries bucketFiles)"
    if acc: "\<not> creation_refused (migrateFromZip e s)"
  proof -
    from acc have "\<not> list_ex is_creation_refusal (trace ?s5)"
      by (simp add: creation_refused_def run ua)
    from upload_buckets_transfers[OF this] f4 show ?thesis
      by (simp add: run ua transfers_def)
  qed
  have cre: "\<forall>(b, files)\<in>set bucketFiles. b \<notin> set (map name existing) \<longrightarrow>
               list_ex (creates_private b) (trace (migrateFromZip e s))"
    if "\<forall>h. listBuckets e h ?c = Data existing" for existing
  proof -
    from ex that have ex': "ex = map name existing" by blast
    have "list_ex (creates_private b) (trace ?s5)"
      if "(b, files) \<in> set bucketFiles" "b \<notin> set (map name existing)" for b files
      using upload_buckets_creates[of b files "object_entries bucketFiles" ex e ?c s4] that ex'
      by simp
    then show ?thesis
      by (auto simp: run ua)
  qed
  from state att cre show ?thesis by blast
qed

text \<open>What \<^verbatim>\<open>upload_all\<close> adds to the trace begins with the assignment of the total.\<close>

lemma upload_all_grows:
  "\<exists>msg after. trace (upload_all e c bf s) =
     trace s @ Logged Info msg # Counters (progress s) (file_count bf) # after"
proof -
  let ?s3 = "addLog e (''Total files to upload: '' @ string_of_nat (file_count bf)) Info
     (set_totalItems (file_count bf)
       (addLog e (''Found '' @ string_of_nat (length (map fst (object_entries bf))) @
                  '' bucket(s): '' @ join '', '' (map fst (object_entries bf))) Info s))"
  let ?r = "listBuckets e (trace ?s3) c"
  let ?s4 = "awaited e (ListBuckets c) (is_ok ?r) ?s3"
  from awaited_grows[of e "ListBuckets c" "is_ok ?r" ?s3] obtain new4 where
    s4: "trace ?s4 = trace ?s3 @ Call (ListBuckets c) (is_ok ?r) # new4"
    by blast
  have loop: "\<exists>new. trace (upload_buckets e c ex (object_entries bf) ?s4) = trace ?s4 @ new" for ex
    using upload_buckets_step[of ?s4 e c ex "object_entries bf"] by (auto simp: step_def)
  show ?thesis
  proof (cases ?r)
    case (Data bs)
    from loop[of "map name bs"] obtain new where
      "trace (upload_buckets e c (map name bs) (object_entries bf) ?s4) = trace ?s4 @ new"
      by blast
    with Data s4 show ?thesis
      by (simp add: upload_all_def Let_def foldl_file_count)
  next
    case (ErrorReturned m)
    from loop[of "[]"] obtain new where
      "trace (upload_buckets e c [] (object_entries bf) ?s4) = trace ?s4 @ new"
      by blast
    with ErrorReturned s4 show ?thesis
      by (simp add: upload_all_def Let_def foldl_file_count)
  next
    case (Thrown m)
    with s4 show ?thesis
      by (simp add: upload_all_def Let_def foldl_file_count)
  qed
qed

subsection \<open>The live run\<close>


lemma live_connected_fields [simp]:
  "error (live_connected e s) = []"
  "success (live_connected e s) = []"
  "transfers (live_connected e s) = []"
  "filter is_creation (asked (live_connected e s)) = []"
  "\<not> list_ex is_run_catch (trace (live_connected e s))"
  "tracked (live_connected e s)"
  by (simp_all add: live_connected_def live_started_def transfers_def asked_def tracked_start)

lemma live_started_accounted: "accounted excused (live_started e s)"
  by (simp add: accounted_def live_started_def deeds_def log_agrees_start)

lemma live_connected_accounted: "accounted excused (live_connected e s)"
  unfolding live_connected_def
  using live_started_accounted[of excused e s] by (elim accounted_grows) simp_all


lemma live_from_listing_accounted:
  assumes "accounted excused s"
    and "(\<forall>r. is_creation r \<longrightarrow> excused r) \<or>
         (\<forall>h c b p m. createBucket e h c b p = ErrorReturned m \<longrightarrow>
                \<not> str_includes m ''already exists'')"
  shows "accounted excused (live_from_listing e c1 c2 s)"
proof -
  let ?s1 = "addLog e ''Fetching buckets from source project...'' Info s"
  let ?r = "listBuckets e (trace ?s1) c1"
  let ?s2 = "awaited e (ListBuckets c1) (is_ok ?r) ?s1"
  from assms(1) have s1: "accounted excused ?s1" by (rule accounted_addLog)
  show ?thesis
  proof (cases ?r)
    case (Data buckets)
    then have "is_ok ?r" by (simp add: is_ok_def)
    with s1 have s2: "accounted excused ?s2"
      by (elim accounted_grows) simp_all
    then have "accounted excused
        (migrate_buckets e c1 c2 buckets
           (addLog e (''Found '' @ string_of_nat (length buckets) @ '' bucket(s): '' @
                      join '', '' (map name buckets)) Info ?s2))"
      by (intro migrate_buckets_accounted[OF assms(2)] accounted_addLog)
    moreover from s2 have
      "accounted excused (addLog e ''No buckets found in source project'' Warning ?s2)"
      by (rule accounted_addLog)
    ultimately show ?thesis
      using Data by (simp add: live_from_listing_def Let_def accounted_def is_ok_def)
  next
    case (ErrorReturned m)
    from s1 have "accounted excused
        (migration_failed e LiveRun (''Failed to list buckets: '' @ m) ?s2)"
      by (elim accounted_grows) (simp_all add: silent_def)
    with ErrorReturned show ?thesis
      by (simp add: live_from_listing_def Let_def)
  next
    case (Thrown m)
    from s1 have "accounted excused (migration_failed e LiveRun m ?s2)"
      by (elim accounted_grows) (simp_all add: silent_def)
    with Thrown show ?thesis
      by (simp add: live_from_listing_def Let_def)
  qed
qed

lemma live_accounted:
  assumes "(\<forall>r. is_creation r \<longrightarrow> excused r) \<or>
         (\<forall>h c b p m. createBucket e h c b p = ErrorReturned m \<longrightarrow>
                \<not> str_includes m ''already exists'')"
  shows "accounted excused (migrateLiveProject e s)"
proof -
  let ?s2 = "live_started e s"
  let ?a = "called (CreateClient (oldProjectUrl s) (oldProjectKey s)) True ?s2"
  have a: "accounted excused
             (migration_failed e LiveRun m
                (called (CreateClient (oldProjectUrl s) (oldProjectKey s)) False ?s2))" for m
    using live_started_accounted[of excused e s]
    by (elim accounted_grows) (simp_all add: silent_def)
  have b: "accounted excused
             (migration_failed e LiveRun m
                (called (CreateClient (newProjectUrl s) (newProjectKey s)) False ?a))" for m
    using live_started_accounted[of excused e s]
    by (elim accounted_grows) (simp_all add: silent_def)
  have c: "accounted excused
             (live_from_listing e (source s) (destination s) (live_connected e s))"
    using live_connected_accounted assms by (rule live_from_listing_accounted)
  from a b c show ?thesis
    by (auto simp: migrateLiveProject_def Let_def live_started_def live_connected_def
        source_def destination_def accounted_def split: option.splits)
qed

lemma live_from_listing_tracked:
  "no_tab_click e \<Longrightarrow> tracked s \<Longrightarrow> tracked (live_from_listing e c1 c2 s)"
  by (auto simp: live_from_listing_def Let_def migrate_buckets_tracked awaited_quiet
      split: response.splits)

lemma live_tracked: "no_tab_click e \<Longrightarrow> tracked (migrateLiveProject e s)"
  by (auto simp: migrateLiveProject_def Let_def tracked_start live_from_listing_tracked
      split: option.splits)

subsection \<open>The preview\<close>

lemma string_of_nat_digit: "n < 10 \<Longrightarrow> string_of_nat n = [digit_char n]"
  by (simp add: string_of_nat.simps)

lemma detectBucketsInZip_log_agrees:
  "detectBucketsInZip e zipFile s = (buckets, s2) \<Longrightarrow> log_agrees s \<Longrightarrow> log_agrees s2"
  by (auto simp: detectBucketsInZip_def detect_loaded_def Let_def split: sum.splits)

lemma handleZipUpload_log_agrees:
  "log_agrees s \<Longrightarrow> log_agrees (handleZipUpload e chosen s)"
  by (auto simp: handleZipUpload_def Let_def split: option.splits prod.splits
      dest: detectBucketsInZip_log_agrees)

text \<open>
  The handler is the end of the preview after the wait for the archive reader, whatever
  happened on the page meanwhile.
\<close>

lemma handleZipUpload_preview_ends:
  "endsWith (file_name zipFile) ''.zip'' \<Longrightarrow>
   handleZipUpload e (Some zipFile) s =
     preview_ends e zipFile
       (awaited e LoadAsync (\<not> isl (loadAsync zipFile))
          (addLog e (''ZIP file selected: '' @ file_name zipFile @ '' ('' @
                     megabytes (file_size zipFile) @ '' MB)'') Info
             (s\<lparr>uploadedZip := Some zipFile\<rparr>)))"
  by (simp add: handleZipUpload_def detectBucketsInZip_def preview_ends_def)

lemma preview_ends_warns:
  assumes "loadAsync zipFile = Inl m"
  shows "deeds (preview_ends e zipFile s) =
           deeds s @
           [Caught Preview m,
            Logged Warning
              ''Could not detect bucket structure. Will attempt to parse during migration.''] \<and>
         type (last (logs (preview_ends e zipFile s))) = Warning \<and>
         message (last (logs (preview_ends e zipFile s))) =
           ''Could not detect bucket structure. Will attempt to parse during migration.''"
  using assms
  by (simp add: preview_ends_def detect_loaded_def Let_def)

text \<open>
  An archive that the preview cannot read: the \<^verbatim>\<open>catch\<close> is followed by a warning, the last
  entry of the log, and no entry of severity \<open>Error\<close> is appended.
\<close>

lemma preview_warns:
  assumes "endsWith (file_name zipFile) ''.zip''" "loadAsync zipFile = Inl m"
  shows "deeds (handleZipUpload e (Some zipFile) s) =
           deeds s @
           [Logged Info (''ZIP file selected: '' @ file_name zipFile @ '' ('' @
                         megabytes (file_size zipFile) @ '' MB)''),
            Call LoadAsync False, Caught Preview m,
            Logged Warning
              ''Could not detect bucket structure. Will attempt to parse during migration.''] \<and>
         type (last (logs (handleZipUpload e (Some zipFile) s))) = Warning \<and>
         message (last (logs (handleZipUpload e (Some zipFile) s))) =
           ''Could not detect bucket structure. Will attempt to parse during migration.''"
  using assms
  by (simp add: handleZipUpload_def detectBucketsInZip_def detect_loaded_def Let_def)

lemma preview_detects:
  "detectedBuckets (handleZipUpload empty_destination (Some photos_zip) (page None)) = [''photos'']"
  by (simp add: handleZipUpload_def detectBucketsInZip_def detect_loaded_def endsWith_def
      awaited_def photos_zip_def page_def empty_destination_def services_def addLog_def called_def
      Let_def parts_def set_add_def looks_like_project_id_def)

section \<open>The runs: results\<close>

lemmas run_defs =
  migrateLiveProject_def live_from_listing_def migrate_bucket_def create_bucket_live_def
  migrate_file_def migrateFromZip_def migrate_entries_def parseZipStructure_def upload_all_def
  upload_bucket_def create_bucket_zip_def upload_file_def is_file_def file_path_def is_ok_def
  awaited_def handleZipUpload_def detectBucketsInZip_def detect_loaded_def preview_ends_def
  meanwhile_def Let_def

lemmas scenario_defs =
  services_def page_def photos_def one_png_def download_fails_def creation_fails_def
  photos_zip_def single_zip_def corrupt_zip_def flat_zip_def empty_destination_def
  bucket_exists_def png_and_folder_def first_download_fails_def tab_clicked_def
  preview_pending_def

lemmas parse_defs =
  parseZipStructure_value_def rootFolder_def set_add_def parts_def looks_like_project_id_def
  place_def push_file_def object_prototype_properties_def object_entries_def is_array_index_def

subsection \<open>One object\<close>

text \<open>
  What the \<^verbatim>\<open>try\<close> block around one object and its \<^verbatim>\<open>catch\<close> leave behind when no tab is
  clicked meanwhile: in a live run a success counted or an error not counted, in a run
  from an archive a success or an error, counted either way.
\<close>

lemma migrate_file_outcome:
  assumes "no_tab_click e"
  shows "(type (last (logs (migrate_file e c1 c2 b p m s))) = Success \<and>
          progress (migrate_file e c1 c2 b p m s) = Suc (progress s)) \<or>
         (type (last (logs (migrate_file e c1 c2 b p m s))) = Error \<and>
          progress (migrate_file e c1 c2 b p m s) = progress s)"
  using assms
  by (auto simp: migrate_file_def Let_def awaited_quiet split: response.splits option.splits)

lemma upload_file_outcome:
  assumes "no_tab_click e"
  shows "(type (last (logs (upload_file e c b fi s))) = Success \<or>
          type (last (logs (upload_file e c b fi s))) = Error) \<and>
         progress (upload_file e c b fi s) = Suc (progress s)"
  using assms
  by (auto simp: upload_file_def Let_def awaited_quiet split: sum.splits option.splits)

text \<open>
  C1: a failed transfer is logged as an error and still counted as processed, in a live
  run as in a run from an archive. The run from an archive does so (lemma
  \<open>upload_file_outcome\<close>). The live run does not: its \<^verbatim>\<open>catch\<close> logs the error and leaves
  \<^verbatim>\<open>progress\<close> as it is (lemma \<open>migrate_file_outcome\<close>). With one bucket holding one
  file whose download fails, the run ends with the error logged, one item in total and
  none processed.
\<close>

theorem live_failed_transfer_not_counted:
  "progress (migrateLiveProject download_fails (page None)) = 0 \<and>
   totalItems (migrateLiveProject download_fails (page None)) = 1 \<and>
   map type (logs (migrateLiveProject download_fails (page None))) =
     [Info, Info, Info, Info, Success, Info, Error] \<and>
   caught_errors (migrateLiveProject download_fails (page None)) =
     [Caught LiveObject ''Object not found'']"
  by (simp add: run_defs scenario_defs caught_errors_def)

subsection \<open>One bucket\<close>

text \<open>
  In a run from an archive, an ``already exists'' answer to the creation of a bucket is
  caught and the loop goes on to the files of the bucket.
\<close>

lemma create_bucket_zip_exists:
  assumes "failure (createBucket e (trace s) c b False) = Some m"
    and "str_includes m ''already exists''"
  shows "create_bucket_zip e c b s =
         (True, caught ZipBucket m (awaited e (CreateBucket c b False) False s))"
  using assms by (simp add: create_bucket_zip_def Let_def is_ok_def)

text \<open>
  In a run from an archive, a bucket whose creation fails for another reason than
  ``already exists'' gets an entry of severity \<open>Error\<close>, the last of the log then, and none
  of its files is read or written.
\<close>

lemma zip_creation_failure_skips:
  assumes "failure (createBucket e (trace s1) c b False) = Some m"
    and "\<not> str_includes m ''already exists''"
    and "b \<notin> set ex"
    and "s1 = addLog e (CHR 0x0A # ''Processing bucket: '' @ b) Info s"
  shows "filter is_transfer (trace (upload_bucket e c ex b files s)) = filter is_transfer (trace s) \<and>
         deeds (upload_bucket e c ex b files s) =
           deeds s @
           [Logged Info (CHR 0x0A # ''Processing bucket: '' @ b),
            Call (CreateBucket c b False) False, Caught ZipBucket m,
            Logged Error (cross @ '' Failed to create bucket '' @ b @ '': '' @ m)] \<and>
         type (last (logs (upload_bucket e c ex b files s))) = Error"
  using assms transfers_simps(3)[of e "CreateBucket c b False" False s1]
  by (simp add: upload_bucket_def create_bucket_zip_def Let_def is_ok_def transfers_def)

text \<open>
  C3: when the destination answers the creation of a bucket with ``already exists'', the
  run goes on to the objects of the bucket; when the creation fails for another reason, an
  error is logged, the objects of the bucket are skipped and the run goes on with the
  other buckets. The run from an archive does both (lemmas \<open>create_bucket_zip_exists\<close>
  and \<open>zip_creation_failure_skips\<close>). The live run does not do the second: its \<^verbatim>\<open>catch\<close>
  logs at severity \<open>Info\<close> that the bucket already exists and goes on to the files. With
  one bucket whose creation is refused, the run logs no error and downloads and uploads
  the file of the bucket.
\<close>

theorem live_creation_failure_ignored:
  "caught_errors (migrateLiveProject creation_fails (page None)) =
     [Caught LiveBucket ''new row violates row-level security policy''] \<and>
   error_entries (migrateLiveProject creation_fails (page None)) = [] \<and>
   map type (logs (migrateLiveProject creation_fails (page None))) =
     [Info, Info, Info, Info, Info, Info, Info, Success] \<and>
   filter is_transfer (trace (migrateLiveProject creation_fails (page None))) =
     [Call (Download (Client ''https://old.supabase.co'' ''old-key'') ''photos'' ''a.png'') True,
      Call (Upload (Client ''https://new.supabase.co'' ''new-key'') ''photos'' ''a.png''
              ''png-bytes'' (JString ''image/png'')) True]"
  by (simp add: run_defs scenario_defs caught_errors_def error_entries_def is_error_entry_def)

subsection \<open>Whole runs\<close>



subsection \<open>The counters\<close>

text \<open>
  As long as no tab button is clicked during a run, the processed counter never decreases
  and never exceeds the total, after every assignment to one of the two and at the end;
  and in a run from an archive the total is assigned once, the number of files of the
  plan, before any object is read or written, and every later snapshot carries it.
\<close>

lemma counters_steady_without_click:
  assumes "no_tab_click e"
  shows "steady (trace (migrateLiveProject e s)) \<and>
   progress (migrateLiveProject e s) \<le> totalItems (migrateLiveProject e s) \<and>
   (uploadedZip s \<noteq> None \<longrightarrow>
      steady (trace (migrateFromZip e s)) \<and>
      progress (migrateFromZip e s) \<le> totalItems (migrateFromZip e s)) \<and>
   (uploadedZip s = Some zipFile \<and>
    createClient e (newProjectUrl s) (newProjectKey s) = None \<and>
    loadAsync zipFile = Inr entries \<and>
    parseZipStructure_value entries = Inr bucketFiles \<and> bucketFiles \<noteq> [] \<longrightarrow>
      (\<exists>rest. counters (trace (migrateFromZip e s)) =
                 [(0, totalItems s), (0, 0), (0, file_count bucketFiles)] @ rest \<and>
               list_all (has_total (file_count bucketFiles)) rest) \<and>
      (\<exists>before after. trace (migrateFromZip e s) =
                         before @ Counters 0 (file_count bucketFiles) # after \<and>
                       \<not> list_ex is_transfer before))"
proof (intro conjI impI)
  show "steady (trace (migrateLiveProject e s))"
    using live_tracked[OF assms, of s] by (simp add: tracked_def)
next
  show "progress (migrateLiveProject e s) \<le> totalItems (migrateLiveProject e s)"
    using live_tracked[OF assms, of s] by (rule tracked_le)
next
  assume "uploadedZip s \<noteq> None"
  then show "steady (trace (migrateFromZip e s))"
    using zip_tracked[OF assms, of s] by (simp add: tracked_def)
next
  assume "uploadedZip s \<noteq> None"
  then show "progress (migrateFromZip e s) \<le> totalItems (migrateFromZip e s)"
    using zip_tracked[OF assms, of s] by (simp add: tracked_le)
next
  assume a: "uploadedZip s = Some zipFile \<and>
    createClient e (newProjectUrl s) (newProjectKey s) = None \<and>
    loadAsync zipFile = Inr entries \<and>
    parseZipStructure_value entries = Inr bucketFiles \<and> bucketFiles \<noteq> []"
  then have run: "migrateFromZip e s =
      (upload_all e (destination s) bucketFiles (zip_parsed e s entries))\<lparr>isProcessing := False\<rparr>"
    using zip_reaches[of s zipFile e entries bucketFiles] by blast
  from upload_all_counters[OF assms zip_parsed_counters(1)[OF assms], of s entries
      "destination s" bucketFiles]
    zip_parsed_counters(2)[OF assms, of s entries]
  show "\<exists>rest. counters (trace (migrateFromZip e s)) =
                 [(0, totalItems s), (0, 0), (0, file_count bucketFiles)] @ rest \<and>
               list_all (has_total (file_count bucketFiles)) rest"
    by (auto simp: run)
  from upload_all_grows[of e "destination s" bucketFiles "zip_parsed e s entries"]
  obtain msg after where
    "trace (upload_all e (destination s) bucketFiles (zip_parsed e s entries)) =
       trace (zip_parsed e s entries) @
       Logged Info msg # Counters 0 (file_count bucketFiles) # after"
    by auto
  then have "trace (migrateFromZip e s) =
       (trace (zip_parsed e s entries) @ [Logged Info msg]) @
       Counters 0 (file_count bucketFiles) # after \<and>
     \<not> list_ex is_transfer (trace (zip_parsed e s entries) @ [Logged Info msg])"
    by (simp add: run)
  then show "\<exists>before after. trace (migrateFromZip e s) =
                         before @ Counters 0 (file_count bucketFiles) # after \<and>
                       \<not> list_ex is_transfer before"
    by blast
qed

text \<open>
  When moreover the destination answers the listing of its buckets and no creation of a
  bucket is refused, the run ends with every file of the plan counted.
\<close>

lemma archive_counts_every_file:
  assumes "no_tab_click e"
    and "uploadedZip s = Some zipFile"
    and "createClient e (newProjectUrl s) (newProjectKey s) = None"
    and "loadAsync zipFile = Inr entries"
    and "parseZipStructure_value entries = Inr bucketFiles"
    and "bucketFiles \<noteq> []"
    and "listing_answered e"
    and "\<not> creation_refused (migrateFromZip e s)"
  shows "progress (migrateFromZip e s) = file_count bucketFiles \<and>
         totalItems (migrateFromZip e s) = file_count bucketFiles"
proof -
  let ?c = "destination s"
  let ?p = "zip_parsed e s entries"
  from upload_all_completes[OF assms(7), of ?c bucketFiles ?p] obtain ex ok s4 where
    s4: "s4 = awaited e (ListBuckets ?c) ok
                 (addLog e (''Total files to upload: '' @ string_of_nat (file_count bucketFiles)) Info
                    (set_totalItems (file_count bucketFiles)
                       (addLog e (''Found '' @ string_of_nat (length (map fst (object_entries bucketFiles))) @
                          '' bucket(s): '' @ join '', '' (map fst (object_entries bucketFiles))) Info ?p)))"
    and ua: "upload_all e ?c bucketFiles ?p =
           (upload_buckets e ?c ex (object_entries bucketFiles) s4)
           \<lparr>success :=
              ''Migration completed! Uploaded '' @
              string_of_nat (progress (upload_buckets e ?c ex (object_entries bucketFiles) s4)) @
              '' out of '' @
              string_of_nat (totalItems (upload_buckets e ?c ex (object_entries bucketFiles) s4)) @
              '' files.''\<rparr>"
    by blast
  let ?s5 = "upload_buckets e ?c ex (object_entries bucketFiles) s4"
  have run: "migrateFromZip e s = (upload_all e ?c bucketFiles ?p)\<lparr>isProcessing := False\<rparr>"
    by (rule zip_reaches[OF assms(2-6)])
  have f4: "tracked s4" "progress s4 = 0" "totalItems s4 = file_count bucketFiles"
    using zip_parsed_counters(1)[OF assms(1), of s entries]
    by (simp_all add: s4 awaited_quiet[OF assms(1)] tracked_set_totalItems)
  from assms(8) have unrefused: "\<not> list_ex is_creation_refusal (trace ?s5)"
    by (simp add: creation_refused_def run ua)
  from upload_buckets_progress[OF assms(1) unrefused] f4
  have "progress ?s5 = file_count bucketFiles" by simp
  moreover from upload_buckets_counters[OF assms(1) f4(1), of "object_entries bucketFiles" ?c ex] f4
  have "totalItems ?s5 = file_count bucketFiles" by simp
  ultimately show ?thesis by (simp add: run ua)
qed

text \<open>
  C6: in every run the processed counter never decreases and never exceeds the total once
  the total is known, and in a run from an archive the total is computed once, before any
  transfer, and never changes. The code keeps to this as long as no tab button is clicked
  during a run (lemma \<open>counters_steady_without_click\<close>). The two tab buttons are the only
  controls of the page that are not disabled while a run is in progress, and their handler
  clears both counters. With a click on a tab while the second of the two files of an
  archive is decompressed, the processed counter falls from 1 to 0 and the total from 2 to
  0 in the middle of the run, and the run ends with 1 item processed out of 0.
\<close>

theorem tab_click_resets_counters:
  "counters (trace (migrateFromZip tab_clicked (page (Some photos_zip)))) =
     [(0, 0), (0, 0), (0, 2), (1, 2), (0, 2), (0, 0), (1, 0)] \<and>
   progress (migrateFromZip tab_clicked (page (Some photos_zip))) = 1 \<and>
   totalItems (migrateFromZip tab_clicked (page (Some photos_zip))) = 0 \<and>
   success (migrateFromZip tab_clicked (page (Some photos_zip))) =
     ''Migration completed! Uploaded 1 out of 0 files.'' \<and>
   filter is_click (trace (migrateFromZip tab_clicked (page (Some photos_zip)))) =
     [Click live_tab] \<and>
   requests (transfers (migrateFromZip tab_clicked (page (Some photos_zip)))) =
     [Async ''photos'' ''a.png'',
      Upload (Client ''https://new.supabase.co'' ''new-key'') ''photos'' ''a.png'' ''png-bytes''
        (JString ''image/png''),
      Async ''photos'' ''b.png'']"
  by (simp add: run_defs scenario_defs parse_defs file_count_def transfers_def
      string_of_nat_digit digit_char_def
      getMimeType_def extension_def pop_def toLowerCase_def lower_char_def mimeTypes_def)

subsection \<open>An archive that cannot be used\<close>

text \<open>
  C8: when the archive cannot be read, or nothing in it lies below a folder, or its
  structure cannot be read, the run ends in the state \<open>Failed\<close> with the reason as its error
  message and as its last log entry, of severity \<open>Error\<close>; nothing was read from the archive
  or written to the destination, and the processed counter is zero.
\<close>

theorem archive_failure_aborts:
  assumes "uploadedZip s = Some zipFile"
    and "createClient e (newProjectUrl s) (newProjectKey s) = None"
    and "loadAsync zipFile = Inl reason \<or>
         (\<exists>entries. loadAsync zipFile = Inr entries \<and>
            (parseZipStructure_value entries = Inl reason \<or>
             parseZipStructure_value entries = Inr [] \<and> reason = no_valid_bucket_structure))"
  shows "run_state (migrateFromZip e s) = Failed \<and>
         error (migrateFromZip e s) = reason \<and>
         success (migrateFromZip e s) = [] \<and>
         progress (migrateFromZip e s) = 0 \<and>
         \<not> list_ex is_transfer (trace (migrateFromZip e s)) \<and>
         \<not> list_ex is_write (trace (migrateFromZip e s)) \<and>
         type (last (logs (migrateFromZip e s))) = Error \<and>
         message (last (logs (migrateFromZip e s))) = ''Migration failed: '' @ reason"
proof -
  from zip_fails[OF assms] obtain s1 where
    "migrateFromZip e s = (migration_failed e ZipRun reason s1)\<lparr>isProcessing := False\<rparr>"
    "progress s1 = 0" "success s1 = []"
    "\<not> list_ex is_transfer (trace s1)" "\<not> list_ex is_write (trace s1)"
    by blast
  then show ?thesis
    by (simp add: run_state_def)
qed

theorem archive_failure_aborts_witness:
  "uploadedZip (page (Some corrupt_zip)) = Some corrupt_zip \<and>
   loadAsync corrupt_zip = Inl ''Can't find end of central directory'' \<and>
   run_state (migrateFromZip empty_destination (page (Some corrupt_zip))) = Failed \<and>
   error (migrateFromZip empty_destination (page (Some corrupt_zip))) =
     ''Can't find end of central directory'' \<and>
   progress (migrateFromZip empty_destination (page (Some corrupt_zip))) = 0 \<and>
   trace (migrateFromZip empty_destination (page (Some corrupt_zip))) =
     [Counters 0 0, Counters 0 0,
      Logged Info ''Initializing Supabase client...'',
      Call (CreateClient ''https://new.supabase.co'' ''new-key'') True,
      Logged Info ''Loading ZIP file...'',
      Call LoadAsync False,
      Caught ZipRun ''Can't find end of central directory'',
      Logged Error ''Migration failed: Can't find end of central directory''] \<and>
   run_state (migrateFromZip empty_destination (page (Some flat_zip))) = Failed \<and>
   error (migrateFromZip empty_destination (page (Some flat_zip))) =
     ''No valid bucket structure found in ZIP file''"
  using archive_failure_aborts
      [where e = empty_destination and s = "page (Some corrupt_zip)" and zipFile = corrupt_zip
         and reason = "''Can't find end of central directory''"]
    archive_failure_aborts
      [where e = empty_destination and s = "page (Some flat_zip)" and zipFile = flat_zip
         and reason = no_valid_bucket_structure]
  by (simp add: run_defs scenario_defs parse_defs no_valid_bucket_structure_def)

subsection \<open>Failures and the log\<close>

text \<open>
  C9, as stated: every error that a run catches leaves an entry of severity \<open>Error\<close> in
  the log, and no failure of an operation is passed over in silence. It fails on a run
  from an archive in which the destination returns an error to \<^verbatim>\<open>listBuckets\<close> and answers
  the creation of the bucket with ``already exists'': the error of the listing is never
  read, and the \<^verbatim>\<open>catch\<close> around the creation takes the error and goes on to the files
  without a word. Two requests failed, one error was caught, and the log holds no entry of
  severity \<open>Error\<close>. It fails also on the preview of an archive that cannot be read: the
  error is caught, and the log gets a warning.
\<close>

theorem errors_caught_in_silence:
  "failed_calls (migrateFromZip bucket_exists (page (Some single_zip))) =
     [Call (ListBuckets (Client ''https://new.supabase.co'' ''new-key'')) False,
      Call (CreateBucket (Client ''https://new.supabase.co'' ''new-key'') ''photos'' False) False] \<and>
   caught_errors (migrateFromZip bucket_exists (page (Some single_zip))) =
     [Caught ZipBucket ''The resource already exists''] \<and>
   error_entries (migrateFromZip bucket_exists (page (Some single_zip))) = [] \<and>
   run_state (migrateFromZip bucket_exists (page (Some single_zip))) = Completed \<and>
   caught_errors (handleZipUpload empty_destination (Some corrupt_zip) (page None)) =
     [Caught Preview ''Can't find end of central directory''] \<and>
   map type (logs (handleZipUpload empty_destination (Some corrupt_zip) (page None))) =
     [Info, Warning]"
  by (simp add: run_defs scenario_defs parse_defs caught_errors_def failed_calls_def
      run_state_def error_entries_def is_error_entry_def endsWith_def)

text \<open>
  C9, amended. Among the requests, the catches and the log entries of a run, in their
  order, every request that failed is followed at once by the \<^verbatim>\<open>catch\<close> that takes its
  error, and every \<^verbatim>\<open>catch\<close> is followed at once by an entry of severity \<open>Error\<close> appended to
  the log that carries the message of the error. The exceptions: in a run from an archive,
  the \<^verbatim>\<open>catch\<close> around the creation of a bucket appends nothing when the message has
  ``already exists'' in it, and a failed listing of the buckets of the destination is
  excused, which is needed only when the listing returns its error (a listing that
  throws is caught like any other request); in a live run, the requests to create a bucket
  and the \<^verbatim>\<open>catch\<close> around them are left out, and without them an excuse is needed only
  when the destination returns an ``already exists''. When no tab button is clicked
  during the run, the log of the page at its end holds the entries appended, by the run
  and by a preview that ended meanwhile, in their order. The preview of an archive that
  cannot be read appends no entry of severity \<open>Error\<close>: its \<^verbatim>\<open>catch\<close> is followed at once by
  a warning, which is then the last entry of the log.
\<close>

theorem failures_surface:
  "surfaced is_creation (deeds (migrateLiveProject e s)) \<and>
   ((\<forall>h c b p m. createBucket e h c b p = ErrorReturned m \<longrightarrow>
        \<not> str_includes m ''already exists'') \<longrightarrow>
      surfaced (\<lambda>r. False) (deeds (migrateLiveProject e s))) \<and>
   (\<not> list_ex is_click (trace (migrateLiveProject e s)) \<longrightarrow>
      map (\<lambda>l. (type l, message l)) (logs (migrateLiveProject e s)) =
        logged (trace (migrateLiveProject e s))) \<and>
   (uploadedZip s \<noteq> None \<longrightarrow>
      surfaced is_listing (deeds (migrateFromZip e s)) \<and>
      ((\<forall>h m. listBuckets e h (destination s) \<noteq> ErrorReturned m) \<longrightarrow>
         surfaced (\<lambda>r. False) (deeds (migrateFromZip e s))) \<and>
      (\<not> list_ex is_click (trace (migrateFromZip e s)) \<longrightarrow>
         map (\<lambda>l. (type l, message l)) (logs (migrateFromZip e s)) =
           logged (trace (migrateFromZip e s)))) \<and>
   (endsWith (file_name zipFile) ''.zip'' \<and> loadAsync zipFile = Inl reason \<longrightarrow>
      deeds (handleZipUpload e (Some zipFile) s) =
        deeds s @
        [Logged Info (''ZIP file selected: '' @ file_name zipFile @ '' ('' @
                      megabytes (file_size zipFile) @ '' MB)''),
         Call LoadAsync False, Caught Preview reason,
         Logged Warning
           ''Could not detect bucket structure. Will attempt to parse during migration.''] \<and>
      type (last (logs (handleZipUpload e (Some zipFile) s))) = Warning \<and>
      message (last (logs (handleZipUpload e (Some zipFile) s))) =
        ''Could not detect bucket structure. Will attempt to parse during migration.'')"
proof (intro conjI impI)
  show "surfaced is_creation (deeds (migrateLiveProject e s))"
    using live_accounted[of is_creation e s] by (simp add: accounted_def)
next
  assume "\<forall>h c b p m. createBucket e h c b p = ErrorReturned m \<longrightarrow>
        \<not> str_includes m ''already exists''"
  then show "surfaced (\<lambda>r. False) (deeds (migrateLiveProject e s))"
    using live_accounted[of "\<lambda>r. False" e s] by (simp add: accounted_def)
next
  assume "\<not> list_ex is_click (trace (migrateLiveProject e s))"
  then show "map (\<lambda>l. (type l, message l)) (logs (migrateLiveProject e s)) =
        logged (trace (migrateLiveProject e s))"
    using live_accounted[of is_creation e s]
    by (simp add: accounted_def log_agrees_def since_click_quiet)
next
  assume "uploadedZip s \<noteq> None"
  then show "surfaced is_listing (deeds (migrateFromZip e s))"
    using zip_accounted[of s is_listing e] by (simp add: accounted_def)
next
  assume "uploadedZip s \<noteq> None" "\<forall>h m. listBuckets e h (destination s) \<noteq> ErrorReturned m"
  then show "surfaced (\<lambda>r. False) (deeds (migrateFromZip e s))"
    using zip_accounted[of s "\<lambda>r. False" e] by (simp add: accounted_def)
next
  assume "uploadedZip s \<noteq> None" "\<not> list_ex is_click (trace (migrateFromZip e s))"
  then show "map (\<lambda>l. (type l, message l)) (logs (migrateFromZip e s)) =
           logged (trace (migrateFromZip e s))"
    using zip_accounted[of s is_listing e]
    by (simp add: accounted_def log_agrees_def since_click_quiet)
next
  assume a: "endsWith (file_name zipFile) ''.zip'' \<and> loadAsync zipFile = Inl reason"
  with preview_warns[of zipFile reason e s]
  show "deeds (handleZipUpload e (Some zipFile) s) =
        deeds s @
        [Logged Info (''ZIP file selected: '' @ file_name zipFile @ '' ('' @
                      megabytes (file_size zipFile) @ '' MB)''),
         Call LoadAsync False, Caught Preview reason,
         Logged Warning
           ''Could not detect bucket structure. Will attempt to parse during migration.'']"
    by blast
  from a preview_warns[of zipFile reason e s]
  show "type (last (logs (handleZipUpload e (Some zipFile) s))) = Warning"
    by blast
  from a preview_warns[of zipFile reason e s]
  show "message (last (logs (handleZipUpload e (Some zipFile) s))) =
        ''Could not detect bucket structure. Will attempt to parse during migration.''"
    by blast
qed

theorem failures_surface_witness:
  "uploadedZip (page (Some photos_zip)) \<noteq> None \<and>
   \<not> list_ex is_click (trace (migrateLiveProject first_download_fails (page (Some photos_zip)))) \<and>
   \<not> list_ex is_click (trace (migrateFromZip first_download_fails (page (Some photos_zip)))) \<and>
   endsWith (file_name corrupt_zip) ''.zip'' \<and>
   loadAsync corrupt_zip = Inl ''Can't find end of central directory'' \<and>
   surfaced (\<lambda>r. False) (deeds (migrateLiveProject first_download_fails (page (Some photos_zip)))) \<and>
   surfaced (\<lambda>r. False) (deeds (migrateFromZip first_download_fails (page (Some photos_zip)))) \<and>
   filter is_failed_call (deeds (migrateLiveProject first_download_fails (page (Some photos_zip)))) =
     [Call (Download (Client ''https://old.supabase.co'' ''old-key'') ''photos'' ''a.png'') False] \<and>
   map message (error_entries (migrateLiveProject first_download_fails (page (Some photos_zip)))) =
     [cross @ '' Failed: a.png - Object not found''] \<and>
   filter is_failed_call (deeds (migrateFromZip first_download_fails (page (Some photos_zip)))) =
     [Call (Async ''photos'' ''b.png'') False] \<and>
   map message (error_entries (migrateFromZip first_download_fails (page (Some photos_zip)))) =
     [cross @ '' Failed: photos/b.png - Corrupted zip: CRC32 mismatch''] \<and>
   deeds (handleZipUpload first_download_fails (Some corrupt_zip) (page (Some photos_zip))) =
     [Logged Info ''ZIP file selected: broken.zip (0.00 MB)'',
      Call LoadAsync False, Caught Preview ''Can't find end of central directory'',
      Logged Warning
        ''Could not detect bucket structure. Will attempt to parse during migration.''] \<and>
   \<not> list_ex is_click (trace (migrateLiveProject preview_pending (page (Some corrupt_zip)))) \<and>
   surfaced (\<lambda>r. False) (deeds (migrateLiveProject preview_pending (page (Some corrupt_zip)))) \<and>
   filter is_aside (trace (migrateLiveProject preview_pending (page (Some corrupt_zip)))) =
     [Counters 0 0, Counters 0 0,
      Meanwhile (Caught Preview ''Can't find end of central directory''),
      Meanwhile (Logged Warning
        ''Could not detect bucket structure. Will attempt to parse during migration.''),
      Counters 0 2, Counters 0 3, Counters 1 3] \<and>
   map type (logs (migrateLiveProject preview_pending (page (Some corrupt_zip)))) =
     [Info, Info, Warning, Info, Info, Success, Info, Error, Info, Info, Success]"
  using failures_surface
    [of first_download_fails "page (Some photos_zip)" corrupt_zip
        "''Can't find end of central directory''"]
    failures_surface
    [of preview_pending "page (Some corrupt_zip)" corrupt_zip
        "''Can't find end of central directory''"]
  by (simp add: run_defs scenario_defs parse_defs destination_def error_entries_def
      is_error_entry_def deeds_def endsWith_def megabytes_def
      string_of_nat_digit digit_char_def)

subsection \<open>The buckets a run from an archive creates\<close>

text \<open>
  C10: a run from an archive never asks for a public bucket, and it asks for every bucket
  of the archive that the destination did not list, as a private one.
\<close>

theorem archive_buckets_private:
  "(uploadedZip s \<noteq> None \<longrightarrow>
      \<not> list_ex creates_public_bucket (trace (migrateFromZip e s))) \<and>
   (uploadedZip s = Some zipFile \<and>
    createClient e (newProjectUrl s) (newProjectKey s) = None \<and>
    loadAsync zipFile = Inr entries \<and>
    parseZipStructure_value entries = Inr bucketFiles \<and> bucketFiles \<noteq> [] \<and>
    listing_answered e \<and> (\<forall>h. listBuckets e h (destination s) = Data existing) \<longrightarrow>
      (\<forall>(b, files)\<in>set bucketFiles. b \<notin> set (map name existing) \<longrightarrow>
         list_ex (creates_private b) (trace (migrateFromZip e s))))"
proof (intro conjI impI)
  assume "uploadedZip s \<noteq> None"
  then show "\<not> list_ex creates_public_bucket (trace (migrateFromZip e s))"
    by (rule zip_private)
next
  assume a: "uploadedZip s = Some zipFile \<and>
    createClient e (newProjectUrl s) (newProjectKey s) = None \<and>
    loadAsync zipFile = Inr entries \<and>
    parseZipStructure_value entries = Inr bucketFiles \<and> bucketFiles \<noteq> [] \<and>
    listing_answered e \<and> (\<forall>h. listBuckets e h (destination s) = Data existing)"
  then have "\<forall>existing. (\<forall>h. listBuckets e h (destination s) = Data existing) \<longrightarrow>
            (\<forall>(b, files)\<in>set bucketFiles. b \<notin> set (map name existing) \<longrightarrow>
               list_ex (creates_private b) (trace (migrateFromZip e s)))"
    using zip_completes[of s zipFile e entries bucketFiles] by blast
  with a show "\<forall>(b, files)\<in>set bucketFiles. b \<notin> set (map name existing) \<longrightarrow>
         list_ex (creates_private b) (trace (migrateFromZip e s))"
    by blast
qed

theorem archive_buckets_private_witness:
  "uploadedZip (page (Some photos_zip)) = Some photos_zip \<and>
   listing_answered empty_destination \<and>
   \<not> list_ex creates_public_bucket (trace (migrateFromZip empty_destination (page (Some photos_zip)))) \<and>
   list_ex (creates_private ''photos'')
     (trace (migrateFromZip empty_destination (page (Some photos_zip)))) \<and>
   filter is_write (trace (migrateFromZip empty_destination (page (Some photos_zip)))) =
     [Call (CreateBucket (Client ''https://new.supabase.co'' ''new-key'') ''photos'' False) True,
      Call (Upload (Client ''https://new.supabase.co'' ''new-key'') ''photos'' ''a.png''
              ''png-bytes'' (JString ''image/png'')) True]"
  using archive_buckets_private
    [where e = empty_destination and s = "page (Some photos_zip)"
       and zipFile = photos_zip and existing = "[]"
       and entries = "[(''readme.txt'', \<lparr>dir = False, async = Inr ''hello''\<rparr>),
             (''photos/'', \<lparr>dir = True, async = Inr []\<rparr>),
             (''photos/a.png'', \<lparr>dir = False, async = Inr ''png-bytes''\<rparr>),
             (''photos/b.png'', \<lparr>dir = False, async = Inl ''Corrupted zip: CRC32 mismatch''\<rparr>)]"
       and bucketFiles = "[(''photos'',
             [\<lparr>path = ''a.png'', file' = \<lparr>dir = False, async = Inr ''png-bytes''\<rparr>\<rparr>,
              \<lparr>path = ''b.png'',
                 file' = \<lparr>dir = False, async = Inl ''Corrupted zip: CRC32 mismatch''\<rparr>\<rparr>])]"]
  by (simp add: run_defs scenario_defs parse_defs listing_answered_def destination_def
      getMimeType_def extension_def pop_def toLowerCase_def lower_char_def mimeTypes_def)

end
